theory Spec2Isabelle
  imports Complex_Main "HOL-Library.Multiset"
begin

section \<open>Sessionization and feature aggregation of the retail analytics pipeline\<close>

text \<open>
  The pipeline of \<^verbatim>\<open>src/user_session.py\<close> is a chain of Spark DataFrame transformations.
  A DataFrame is modelled as the list of its rows, a row as a record of its columns, a
  nullable column as an \<open>option\<close>. Timestamps are parsed with the pattern
  \<^verbatim>\<open>yyyy-MM-dd HH:mm:ss 'UTC'\<close> and the session time zone is UTC, so an instant is the
  integer number of seconds since the epoch and \<^verbatim>\<open>unix_timestamp\<close> is the identity on
  it. A column of Spark's \<^verbatim>\<open>LongType\<close> holds a 64-bit integer, a column of \<^verbatim>\<open>DoubleType\<close>
  an IEEE binary64 value: a finite double is represented by the rational number it denotes,
  and every operation on doubles rounds its exact result to the nearest double.
\<close>

subsection \<open>Rows, configuration, errors\<close>

text \<open>
  The cleaned events: the columns of the CSV schema without \<^verbatim>\<open>event_time\<close>, with
  \<^verbatim>\<open>event_timestamp\<close>; rows whose \<^verbatim>\<open>user_id\<close> or \<^verbatim>\<open>event_timestamp\<close> is null have been
  dropped, so these two columns are not nullable.
\<close>

record event =
  event_type :: "string option"
  product_id :: "int option"
  category_id :: "int option"
  category_code :: "string option"
  brand :: "string option"
  price :: "rat option"
  user_id :: int
  event_timestamp :: int

text \<open>\<^verbatim>\<open>withColumn("session_id", ...)\<close> adds one column to every row.\<close>

record sessionized_event = event +
  session_id :: string

definition with_session_id :: "event \<Rightarrow> string \<Rightarrow> sessionized_event" where
  "with_session_id e sid = event.extend e (sessionized_event.fields sid)"

text \<open>
  The configuration is the dictionary read from the YAML file; the model keeps the entries
  whose value is an integer or null. A lookup \<^verbatim>\<open>self.config[key]\<close> of an absent key raises
  KeyError; a key that is present with the value null is found.
\<close>

datatype config_value = IntValue int | NullValue

type_synonym config = "string \<rightharpoonup> config_value"

text \<open>
  The exceptions that end a stage: Python's KeyError, the \<^verbatim>\<open>sys.exit\<close> of the loader,
  Spark's AnalysisException, and the error of the Py4J bridge when a Python integer does not
  fit the 64-bit integer it is sent as.
\<close>

datatype error = KeyError string | SystemExit int | AnalysisException | Py4JError

subsection \<open>Casting a long to a string\<close>

definition digit_char :: "nat \<Rightarrow> char" where
  "digit_char d = ''0123456789'' ! d"

fun digits :: "nat \<Rightarrow> string" where
  "digits n = (if n < 10 then [digit_char n] else digits (n div 10) @ [digit_char (n mod 10)])"

declare digits.simps [simp del]

definition cast_string :: "int \<Rightarrow> string" where
  "cast_string i = (if i < 0 then CHR ''-'' # digits (nat (- i)) else digits (nat i))"

subsection \<open>Window functions\<close>

text \<open>
  \<^verbatim>\<open>Window.partitionBy("user_id").orderBy("event_timestamp")\<close>: one partition per user,
  its rows in ascending order of the timestamp. Spark leaves the order of rows with equal
  timestamps open; the model takes the stable sort, and the results below that depend on the
  order are stated for every ascending arrangement of a partition.
\<close>

definition user_window :: "event list \<Rightarrow> event list list" where
  "user_window df =
     map (\<lambda>u. sort_key event_timestamp (filter (\<lambda>e. user_id e = u) df))
       (remdups (map user_id df))"

text \<open>\<^verbatim>\<open>lag(c, 1)\<close> over an ordered partition: the column moved down by one row, null first.\<close>

definition lag :: "'a list \<Rightarrow> 'a option list" where
  "lag xs = take (length xs) (None # map Some xs)"

text \<open>
  \<^verbatim>\<open>when((col("time_diff") > session_timeout) | col("time_diff").isNull(), 1).otherwise(0)\<close>
\<close>

definition new_session_flag :: "int \<Rightarrow> int option \<Rightarrow> int" where
  "new_session_flag session_timeout time_diff =
     (case time_diff of None \<Rightarrow> 1 | Some d \<Rightarrow> if d > session_timeout then 1 else 0)"

text \<open>
  \<^verbatim>\<open>sum(c).over(w)\<close> for a window with an ordering and no explicit frame: Spark's default
  frame is RANGE BETWEEN UNBOUNDED PRECEDING AND CURRENT ROW, so the sum at a row runs over
  every row of the partition whose ordering key is at most the key of that row (the rows
  with an equal key included).
\<close>

definition range_sum :: "int list \<Rightarrow> int list \<Rightarrow> int list" where
  "range_sum keys vals =
     map (\<lambda>k. sum_list (map snd (filter (\<lambda>(k', v). k' \<le> k) (zip keys vals)))) keys"

subsection \<open>\<^verbatim>\<open>_sessionize_events\<close>\<close>

text \<open>The columns computed on one ordered partition of the window.\<close>

definition time_diff_column :: "int list \<Rightarrow> int option list" where
  "time_diff_column ts = map2 (\<lambda>c p. map_option (\<lambda>p. c - p) p) ts (lag ts)"

definition session_group_column :: "int \<Rightarrow> int list \<Rightarrow> int list" where
  "session_group_column session_timeout ts =
     range_sum ts (map (new_session_flag session_timeout) (time_diff_column ts))"

definition sessionize_partition :: "int \<Rightarrow> event list \<Rightarrow> sessionized_event list" where
  "sessionize_partition session_timeout rows =
     map2 (\<lambda>e session_group.
             with_session_id e (cast_string (user_id e) @ ''_'' @ cast_string session_group))
       rows (session_group_column session_timeout (map event_timestamp rows))"

text \<open>
  When the configured timeout is null, the comparison \<^verbatim>\<open>col("time_diff") > session_timeout\<close>
  is null on every row, so the flag is set only where \<^verbatim>\<open>time_diff\<close> is null.
\<close>

definition null_timeout_flag :: "int option \<Rightarrow> int" where
  "null_timeout_flag time_diff = (case time_diff of None \<Rightarrow> 1 | Some d \<Rightarrow> 0)"

definition sessionize_partition_null :: "event list \<Rightarrow> sessionized_event list" where
  "sessionize_partition_null rows =
     map2 (\<lambda>e session_group.
             with_session_id e (cast_string (user_id e) @ ''_'' @ cast_string session_group))
       rows (range_sum (map event_timestamp rows)
               (map null_timeout_flag (time_diff_column (map event_timestamp rows))))"

text \<open>
  The timeout is read from the configuration first. An integer is passed to Spark as a
  literal of the comparison, which fails in the Py4J bridge when it is outside the 64-bit
  range.
\<close>

definition sessionize_events :: "config \<Rightarrow> event list \<Rightarrow> error + sessionized_event list" where
  "sessionize_events config df =
     (case config ''session_timeout_seconds'' of
        None \<Rightarrow> Inl (KeyError ''session_timeout_seconds'')
      | Some NullValue \<Rightarrow> Inr (concat (map sessionize_partition_null (user_window df)))
      | Some (IntValue session_timeout) \<Rightarrow>
          if - (2 ^ 63) \<le> session_timeout \<and> session_timeout < 2 ^ 63
          then Inr (concat (map (sessionize_partition session_timeout) (user_window df)))
          else Inl Py4JError)"

subsection \<open>\<^verbatim>\<open>_aggregate_to_session_features\<close>\<close>

text \<open>
  \<^verbatim>\<open>session_features_df\<close>: one row per group of \<^verbatim>\<open>groupBy("user_id", "session_id")\<close>.
  \<^verbatim>\<open>countDistinct\<close> and \<^verbatim>\<open>collect_set\<close> skip nulls; the array of \<^verbatim>\<open>collect_set\<close> holds each
  value once, in no specified order.
\<close>

record session_aggregate =
  s_user_id :: int
  s_session_id :: string
  session_start_time :: int
  session_end_time :: int
  total_events :: int
  distinct_products_viewed :: int
  unique_event_types :: "string list"

fun non_null :: "'a option list \<Rightarrow> 'a list" where
  "non_null [] = []"
| "non_null (None # xs) = non_null xs"
| "non_null (Some x # xs) = x # non_null xs"

definition agg_session :: "int \<Rightarrow> string \<Rightarrow> sessionized_event list \<Rightarrow> session_aggregate" where
  "agg_session u sid rows =
     \<lparr>s_user_id = u,
      s_session_id = sid,
      session_start_time = Min (set (map event_timestamp rows)),
      session_end_time = Max (set (map event_timestamp rows)),
      total_events = int (length rows),
      distinct_products_viewed = int (length (remdups (non_null (map product_id rows)))),
      unique_event_types = remdups (non_null (map event_type rows))\<rparr>"

definition session_features_df :: "sessionized_event list \<Rightarrow> session_aggregate list" where
  "session_features_df df =
     map (\<lambda>(u, sid). agg_session u sid (filter (\<lambda>r. user_id r = u \<and> session_id r = sid) df))
       (remdups (map (\<lambda>r. (user_id r, session_id r)) df))"

text \<open>\<^verbatim>\<open>final_df\<close>: four more columns. \<^verbatim>\<open>hour\<close> and \<^verbatim>\<open>dayofweek\<close> read the instant in UTC;
  \<^verbatim>\<open>dayofweek\<close> numbers the days from Sunday = 1 to Saturday = 7, and the epoch day
  1970-01-01 was a Thursday.\<close>

record session_features = session_aggregate +
  session_duration_seconds :: int
  hour_of_day :: int
  day_of_week :: int
  funnel_stage :: string

definition hour :: "int \<Rightarrow> int" where
  "hour ts = (ts mod 86400) div 3600"

definition dayofweek :: "int \<Rightarrow> int" where
  "dayofweek ts = (ts div 86400 + 4) mod 7 + 1"

text \<open>
  The \<^verbatim>\<open>when(...).when(...).when(...).otherwise("other")\<close> chain, each condition read as the
  test whether the collected set holds the event type: the first condition that holds
  decides.
\<close>

definition funnel_stage_of :: "string list \<Rightarrow> string" where
  "funnel_stage_of types =
     (if ''purchase'' \<in> set types then ''completed_purchase''
      else if ''cart'' \<in> set types then ''added_to_cart''
      else if ''view'' \<in> set types then ''view_only''
      else ''other'')"

definition final_row :: "session_aggregate \<Rightarrow> session_features" where
  "final_row a =
     session_aggregate.extend a
       (session_features.fields
          (session_end_time a - session_start_time a)
          (hour (session_start_time a))
          (dayofweek (session_start_time a))
          (funnel_stage_of (unique_event_types a)))"

text \<open>
  The conditions of the chain are written \<^verbatim>\<open>col("unique_event_types").contains(...)\<close>.
  \<^verbatim>\<open>Column.contains\<close> builds Spark's string predicate \<^verbatim>\<open>Contains\<close>: the analyzer accepts an
  operand that is a string or that it casts to a string implicitly, which it does for the
  atomic types and not for an array (the membership test on an array is \<^verbatim>\<open>array_contains\<close>).
  \<^verbatim>\<open>withColumn\<close> analyzes its expression against the types of the columns when it is
  called, before any row is read, and raises AnalysisException on a mismatch.
\<close>

datatype data_type = LongType | StringType | TimestampType | ArrayType data_type

fun contains_accepts :: "data_type \<Rightarrow> bool" where
  "contains_accepts (ArrayType _) = False"
| "contains_accepts _ = True"

definition session_features_schema :: "(string \<times> data_type) list" where
  "session_features_schema =
     [(''user_id'', LongType), (''session_id'', StringType),
      (''session_start_time'', TimestampType), (''session_end_time'', TimestampType),
      (''total_events'', LongType), (''distinct_products_viewed'', LongType),
      (''unique_event_types'', ArrayType StringType)]"

definition analyze_contains :: "(string \<times> data_type) list \<Rightarrow> string \<Rightarrow> error + unit" where
  "analyze_contains schema column =
     (case map_of schema column of
        None \<Rightarrow> Inl AnalysisException
      | Some ty \<Rightarrow> if contains_accepts ty then Inr () else Inl AnalysisException)"

definition aggregate_to_session_features ::
    "sessionized_event list \<Rightarrow> error + session_features list" where
  "aggregate_to_session_features df =
     (case analyze_contains session_features_schema ''unique_event_types'' of
        Inl e \<Rightarrow> Inl e
      | Inr _ \<Rightarrow> Inr (map final_row (session_features_df df)))"

subsection \<open>\<^verbatim>\<open>_aggregate_to_user_features\<close>\<close>

text \<open>
  Rounding to the nearest double, ties to even: \<open>binade x\<close> is the exponent \<open>e\<close> with
  \<open>2\<^sup>e \<le> x < 2\<^sup>e\<^sup>+\<^sup>1\<close>, kept at -1022 or above for the subnormal numbers; the result is the
  multiple of \<open>2\<^sup>e\<^sup>-\<^sup>5\<^sup>2\<close> nearest to \<open>x\<close>. Results beyond the largest finite double would be
  infinite in Spark and are not represented.
\<close>

fun bit_length :: "nat \<Rightarrow> nat" where
  "bit_length n = (if n = 0 then 0 else Suc (bit_length (n div 2)))"

declare bit_length.simps [simp del]

definition binade :: "rat \<Rightarrow> int" where
  "binade x =
     (if 1 \<le> x then int (bit_length (nat \<lfloor>x\<rfloor>)) - 1
      else let k = int (bit_length (nat \<lfloor>1 / x\<rfloor>)) - 1
           in if x * 2 powi k = 1 then - k else - k - 1)"

definition round_half_even :: "rat \<Rightarrow> int" where
  "round_half_even q =
     (let n = \<lfloor>q\<rfloor>; r = q - of_int n
      in if r < 1 / 2 then n else if 1 / 2 < r then n + 1 else if even n then n else n + 1)"

definition to_double :: "rat \<Rightarrow> rat" where
  "to_double x =
     (if x = 0 then 0
      else let e = max (binade \<bar>x\<bar>) (- 1022); ulp = 2 powi (e - 52)
           in sgn x * of_int (round_half_even (\<bar>x\<bar> / ulp)) * ulp)"

text \<open>
  \<^verbatim>\<open>avg\<close> over a \<^verbatim>\<open>LongType\<close> column skips nulls and is null when no value is left; otherwise
  each value is cast to a double, the values are added up in double arithmetic, and the sum
  is divided by the count cast to a double.
\<close>

definition double_sum :: "int list \<Rightarrow> rat" where
  "double_sum vs = foldl (\<lambda>acc v. to_double (acc + to_double (of_int v))) 0 vs"

definition avg :: "int option list \<Rightarrow> rat option" where
  "avg xs =
     (let vs = non_null xs
      in if vs = [] then None
         else Some (to_double (double_sum vs / to_double (of_nat (length vs)))))"

text \<open>
  \<^verbatim>\<open>sum\<close> over a column of integers is a \<^verbatim>\<open>LongType\<close> value: the sum in 64-bit two's
  complement, which wraps around.
\<close>

definition wrap64 :: "int \<Rightarrow> int" where
  "wrap64 x = (x + 2 ^ 63) mod 2 ^ 64 - 2 ^ 63"

definition long_sum :: "int list \<Rightarrow> int" where
  "long_sum vs = wrap64 (sum_list vs)"

record user_summary =
  u_user_id :: int
  total_sessions :: int
  total_events_lifetime :: int
  avg_session_duration_seconds :: "rat option"
  total_purchase_sessions :: int
  avg_time_between_sessions_sec :: "rat option"
  avg_time_between_sessions_hours :: "rat option"

text \<open>
  The summary of one user, from the user's rows in the order of the window
  \<^verbatim>\<open>Window.partitionBy("user_id").orderBy("session_start_time")\<close>. The columns of the
  session table are not null, so \<^verbatim>\<open>count("session_id")\<close> counts the rows.
\<close>

definition user_summary_row :: "int \<Rightarrow> session_features list \<Rightarrow> user_summary" where
  "user_summary_row u rows =
     (let starts = map session_start_time rows;
          previous_session_start = lag starts;
          sec = avg (map2 (\<lambda>s p. map_option (\<lambda>p. s - p) p) starts previous_session_start)
      in \<lparr>u_user_id = u,
          total_sessions = int (length rows),
          total_events_lifetime = long_sum (map total_events rows),
          avg_session_duration_seconds = avg (map (\<lambda>r. Some (session_duration_seconds r)) rows),
          total_purchase_sessions =
            long_sum (map (\<lambda>r. if funnel_stage r = ''completed_purchase'' then 1 else 0) rows),
          avg_time_between_sessions_sec = sec,
          avg_time_between_sessions_hours = map_option (\<lambda>x. to_double (x / 3600)) sec\<rparr>)"

definition aggregate_to_user_features :: "session_features list \<Rightarrow> user_summary list" where
  "aggregate_to_user_features df =
     map (\<lambda>u. user_summary_row u (sort_key session_start_time (filter (\<lambda>r. s_user_id r = u) df)))
       (remdups (map s_user_id df))"

subsection \<open>\<^verbatim>\<open>run\<close>\<close>

text \<open>
  The orchestration. \<^verbatim>\<open>_load_and_clean_data\<close> runs first: it reads the files, so its outcome
  is a parameter, either the exception that ended it (the KeyError of a missing path entry,
  the \<^verbatim>\<open>sys.exit(1)\<close> when the source file does not exist) or the cleaned events. The result
  of a run is the two tables that are written; an exception of a stage ends the run.
\<close>

definition run ::
    "config \<Rightarrow> error + event list \<Rightarrow> error + session_features list \<times> user_summary list" where
  "run config load_and_clean_data =
     (case load_and_clean_data of
        Inl e \<Rightarrow> Inl e
      | Inr cleaned_df \<Rightarrow>
          (case sessionize_events config cleaned_df of
             Inl e \<Rightarrow> Inl e
           | Inr sessionized_events_df \<Rightarrow>
               (case aggregate_to_session_features sessionized_events_df of
                  Inl e \<Rightarrow> Inl e
                | Inr features_df \<Rightarrow>
                    Inr (features_df, aggregate_to_user_features features_df))))"

subsection \<open>Definitions used in the statements and proofs\<close>

text \<open>
  The running flag sum of a partition read row by row: \<open>running t p ts k\<close> adds the
  session flags of the rows of \<open>ts\<close> whose timestamp is at most \<open>k\<close>, where \<open>p\<close> is the
  timestamp before the first row. It is the value of \<^verbatim>\<open>session_group\<close> at a row with
  timestamp \<open>k\<close> (lemma \<open>session_group_column_running\<close>).
\<close>

fun running :: "int \<Rightarrow> int option \<Rightarrow> int list \<Rightarrow> int \<Rightarrow> int" where
  "running t p [] k = 0"
| "running t p (x # xs) k =
     (if x \<le> k then new_session_flag t (map_option (\<lambda>p. x - p) p) else 0)
       + running t (Some x) xs k"

definition session_number :: "int \<Rightarrow> event list \<Rightarrow> int \<Rightarrow> int \<Rightarrow> int" where
  "session_number t df u k =
     running t None (sort (map event_timestamp (filter (\<lambda>e. user_id e = u) df))) k"

definition assign_session :: "int \<Rightarrow> event list \<Rightarrow> event \<Rightarrow> sessionized_event" where
  "assign_session t df e =
     with_session_id e (cast_string (user_id e) @ ''_'' @
        cast_string (session_number t df (user_id e) (event_timestamp e)))"

text \<open>The differences of neighbouring entries of a list of session starts.\<close>

fun start_gaps :: "int list \<Rightarrow> int list" where
  "start_gaps (x # y # xs) = (y - x) # start_gaps (y # xs)"
| "start_gaps xs = []"

text \<open>
  The specification's wording of the time between sessions: the sessions of a user ordered
  by start, for each session but the first the start minus the start of the session before
  it, the mean of these gaps, divided by 3600.
\<close>

definition spec_session_gaps :: "int list \<Rightarrow> int list" where
  "spec_session_gaps starts =
     (let s = sort starts in map (\<lambda>i. s ! i - s ! (i - 1)) [1..<length s])"

definition spec_avg_time_between_sessions_hours :: "int list \<Rightarrow> rat" where
  "spec_avg_time_between_sessions_hours starts =
     (of_int (sum_list (spec_session_gaps starts))
        / of_nat (length (spec_session_gaps starts))) / 3600"

text \<open>
  The same quantity in double arithmetic: the sum of the gaps divided by their number, the
  quotient rounded to a double, divided by 3600 and rounded again.
\<close>

definition double_avg_time_between_sessions_hours :: "int list \<Rightarrow> rat" where
  "double_avg_time_between_sessions_hours starts =
     to_double (to_double (of_int (sum_list (spec_session_gaps starts))
                  / to_double (of_nat (length (spec_session_gaps starts)))) / 3600)"

text \<open>The summary row of one user of a session table.\<close>

definition user_row :: "session_features list \<Rightarrow> int \<Rightarrow> user_summary" where
  "user_row df u =
     user_summary_row u (sort_key session_start_time (filter (\<lambda>r. s_user_id r = u) df))"

text \<open>Example tables.\<close>

definition example_session ::
    "int \<Rightarrow> string \<Rightarrow> int \<Rightarrow> int \<Rightarrow> int \<Rightarrow> string list \<Rightarrow> session_features" where
  "example_session u sid start end n types =
     final_row \<lparr>s_user_id = u, s_session_id = sid, session_start_time = start,
                session_end_time = end, total_events = n, distinct_products_viewed = 1,
                unique_event_types = types\<rparr>"

definition example_sessions :: "session_features list" where
  "example_sessions =
     [example_session 1 ''1_2'' 8170 8170 1 [''view''],
      example_session 2 ''2_1'' 500 560 3 [''view'', ''cart''],
      example_session 1 ''1_1'' 1000 1030 2 [''view'', ''purchase'']]"

definition example_four_sessions :: "session_features list" where
  "example_four_sessions =
     [example_session 1 ''1_1'' 0 0 1 [''view''],
      example_session 1 ''1_2'' 2000 2000 1 [''view''],
      example_session 1 ''1_3'' 3000 3000 1 [''view''],
      example_session 1 ''1_4'' 4001 4001 1 [''view'']]"


definition example_config :: config where
  "example_config = [''session_timeout_seconds'' \<mapsto> IntValue 1800]"

definition example_event :: "int \<Rightarrow> int \<Rightarrow> string \<Rightarrow> event" where
  "example_event u t ty =
     \<lparr>event_type = Some ty, product_id = Some 7, category_id = None, category_code = None,
      brand = None, price = None, user_id = u, event_timestamp = t\<rparr>"

definition example_events :: "event list" where
  "example_events =
     [example_event 1 8200 ''view'', example_event 1 1000 ''view'',
      example_event 2 500 ''cart'', example_event 1 1030 ''purchase'']"

definition example_sessionized :: "sessionized_event list" where
  "example_sessionized =
     [with_session_id (example_event 2 500 ''cart'') ''2_1'',
      with_session_id (example_event 1 1000 ''view'') ''1_1'',
      with_session_id (example_event 1 1030 ''purchase'') ''1_1'',
      with_session_id (example_event 1 8200 ''view'') ''1_2'']"

definition example_tied_events :: "event list" where
  "example_tied_events = [example_event 1 1000 ''view'', example_event 1 1000 ''cart'']"

definition example_tied_sessionized :: "sessionized_event list" where
  "example_tied_sessionized =
     [with_session_id (example_event 1 1000 ''view'') ''1_1'',
      with_session_id (example_event 1 1000 ''cart'') ''1_1'']"

section \<open>Properties of the sessionizer\<close>

lemma with_session_id_simps [simp]:
  "session_id (with_session_id e s) = s"
  "user_id (with_session_id e s) = user_id e"
  "event_timestamp (with_session_id e s) = event_timestamp e"
  "event.truncate (with_session_id e s) = e"
  by (simp_all add: with_session_id_def event.defs sessionized_event.defs)

lemma range_running:
  "sum_list (map snd (filter (\<lambda>(k', v). k' \<le> k)
      (zip ts (map (new_session_flag t)
         (map2 (\<lambda>c p. map_option (\<lambda>p. c - p) p) ts (take (length ts) (p # map Some ts)))))))
   = running t p ts k"
  by (induction ts arbitrary: p) auto

lemma session_group_column_running:
  "session_group_column t ts = map (running t None ts) ts"
  unfolding session_group_column_def range_sum_def time_diff_column_def lag_def range_running
  by simp

lemma sessionize_partition_map:
  "sessionize_partition t rows =
     map (\<lambda>e. with_session_id e (cast_string (user_id e) @ ''_'' @
                  cast_string (running t None (map event_timestamp rows) (event_timestamp e)))) rows"
  by (simp add: sessionize_partition_def session_group_column_running zip_map2 zip_same_conv_map comp_def)

lemma new_session_flag_range: "0 \<le> new_session_flag t d" "new_session_flag t d \<le> 1"
  by (auto simp: new_session_flag_def split: option.splits)

lemma running_nonneg: "0 \<le> running t p xs k"
  by (induction xs arbitrary: p) (auto simp: new_session_flag_range intro: add_nonneg_nonneg)

lemma running_mono: "k \<le> k' \<Longrightarrow> running t p xs k \<le> running t p xs k'"
proof (induction xs arbitrary: p)
  case Nil
  then show ?case by simp
next
  case (Cons x xs)
  have "running t (Some x) xs k \<le> running t (Some x) xs k'" using Cons by blast
  moreover have "0 \<le> new_session_flag t (map_option (\<lambda>p. x - p) p)" by (rule new_session_flag_range)
  ultimately show ?case using Cons.prems by auto
qed

lemma running_above: "\<forall>x\<in>set xs. k < x \<Longrightarrow> running t p xs k = 0"
  by (induction xs arbitrary: p) auto

lemma running_ties:
  "0 \<le> t \<Longrightarrow> sorted (x # xs) \<Longrightarrow> running t (Some x) xs x = 0"
proof (induction xs)
  case Nil
  then show ?case by simp
next
  case (Cons y ys)
  show ?case
  proof (cases "y = x")
    case True
    with Cons show ?thesis by (simp add: new_session_flag_def)
  next
    case False
    with Cons.prems have "\<forall>z\<in>set (y # ys). x < z" by fastforce
    then show ?thesis by (rule running_above)
  qed
qed

lemma running_first:
  "0 \<le> t \<Longrightarrow> sorted (x # xs) \<Longrightarrow> running t None (x # xs) x = 1"
  by (simp add: running_ties new_session_flag_def del: sorted_simps)

lemma running_step:
  "0 \<le> t \<Longrightarrow> sorted xs \<Longrightarrow> Suc i < length xs \<Longrightarrow>
     running t p xs (xs ! Suc i) =
       running t p xs (xs ! i) + (if xs ! Suc i - xs ! i > t then 1 else 0)"
proof (induction xs arbitrary: p i)
  case Nil
  then show ?case by simp
next
  case (Cons x xs)
  show ?case
  proof (cases i)
    case 0
    with Cons.prems obtain y ys where xs: "xs = y # ys" by (cases xs) auto
    have xy: "x \<le> y" using Cons.prems xs by simp
    have sy: "sorted (y # ys)" using Cons.prems xs by simp
    have ry: "running t (Some y) ys y = 0" using Cons.prems(1) sy by (rule running_ties)
    show ?thesis
    proof (cases "x = y")
      case True
      then show ?thesis using 0 xs Cons.prems(1) ry by (simp add: new_session_flag_def)
    next
      case False
      with xy have lt: "x < y" by simp
      have "\<forall>z\<in>set ys. x < z" using sy lt by fastforce
      then have "running t (Some y) ys x = 0" by (rule running_above)
      then show ?thesis using 0 xs lt ry by (simp add: new_session_flag_def)
    qed
  next
    case (Suc j)
    have s: "sorted xs" and len: "Suc j < length xs" using Cons.prems Suc by auto
    have ih: "running t (Some x) xs (xs ! Suc j) =
       running t (Some x) xs (xs ! j) + (if xs ! Suc j - xs ! j > t then 1 else 0)"
      using Cons.IH [OF Cons.prems(1) s len] .
    have "x \<le> xs ! j" "x \<le> xs ! Suc j" using Cons.prems(2) len by auto
    then show ?thesis using Suc ih by simp
  qed
qed

lemma digit_char_inj: "d < 10 \<Longrightarrow> d' < 10 \<Longrightarrow> digit_char d = digit_char d' \<Longrightarrow> d = d'"
proof -
  assume a: "d < 10" "d' < 10" "digit_char d = digit_char d'"
  have "distinct ''0123456789''" by simp
  moreover have "d < length ''0123456789''" "d' < length ''0123456789''" using a by simp_all
  ultimately show "d = d'" using a(3) unfolding digit_char_def
    by (simp only: nth_eq_iff_index_eq)
qed

lemma digits_nonempty: "digits n \<noteq> []"
  by (subst digits.simps) simp

lemma digits_inj: "digits n = digits m \<Longrightarrow> n = m"
proof (induction n arbitrary: m rule: digits.induct)
  case (1 n)
  show ?case
  proof (cases "n < 10")
    case True
    show ?thesis
    proof (cases "m < 10")
      case m: True
      from "1.prems" True m have "digit_char n = digit_char m"
        by (simp add: digits.simps [of n] digits.simps [of m])
      with True m show ?thesis by (auto dest: digit_char_inj)
    next
      case m: False
      from "1.prems" True m show ?thesis
        using digits_nonempty [of "m div 10"]
        by (simp add: digits.simps [of n] digits.simps [of m])
    qed
  next
    case False
    show ?thesis
    proof (cases "m < 10")
      case m: True
      from "1.prems" False m show ?thesis
        using digits_nonempty [of "n div 10"]
        by (simp add: digits.simps [of n] digits.simps [of m])
    next
      case m: False
      from "1.prems" False m
      have e: "digits (n div 10) = digits (m div 10)" "digit_char (n mod 10) = digit_char (m mod 10)"
        by (simp_all add: digits.simps [of n] digits.simps [of m])
      have "n div 10 = m div 10" using "1.IH" [OF False e(1)] .
      moreover have "n mod 10 = m mod 10"
        using e(2) digit_char_inj [of "n mod 10" "m mod 10"] by simp
      ultimately show ?thesis by (metis div_mult_mod_eq)
    qed
  qed
qed

lemma cast_string_inj_nonneg:
  "0 \<le> a \<Longrightarrow> 0 \<le> b \<Longrightarrow> cast_string a = cast_string b \<Longrightarrow> a = b"
  by (auto simp: cast_string_def dest: digits_inj)

lemma cast_string_one: "cast_string 1 = ''1''"
  by (simp add: cast_string_def digits.simps digit_char_def)

lemma map_sort_key: "map f (sort_key f xs) = sort (map f xs)"
  by (rule properties_for_sort [symmetric]) simp_all

lemma sessionize_partition_user:
  "sessionize_partition t (sort_key event_timestamp (filter (\<lambda>e. user_id e = u) df)) =
     map (assign_session t df) (sort_key event_timestamp (filter (\<lambda>e. user_id e = u) df))"
  by (auto simp: sessionize_partition_map assign_session_def session_number_def map_sort_key)

lemma sum_list_filter_mset_keys:
  "distinct us \<Longrightarrow> \<forall>x\<in>#M. k x \<in> set us \<Longrightarrow>
     (\<Sum>u\<leftarrow>us. filter_mset (\<lambda>x. k x = u) M) = M"
proof (induction us arbitrary: M)
  case Nil
  then show ?case by (cases "M = {#}") auto
next
  case (Cons u us)
  let ?M' = "filter_mset (\<lambda>x. k x \<noteq> u) M"
  have "(\<Sum>v\<leftarrow>us. filter_mset (\<lambda>x. k x = v) ?M') = ?M'"
    using Cons.prems by (intro Cons.IH) auto
  moreover have "filter_mset (\<lambda>x. k x = v) ?M' = filter_mset (\<lambda>x. k x = v) M" if "v \<in> set us" for v
  proof -
    have "v \<noteq> u" using that Cons.prems(1) by auto
    then show ?thesis by (auto simp: filter_filter_mset intro!: filter_mset_cong)
  qed
  then have "map (\<lambda>v. filter_mset (\<lambda>x. k x = v) ?M') us = map (\<lambda>v. filter_mset (\<lambda>x. k x = v) M) us"
    by simp
  ultimately have "(\<Sum>v\<leftarrow>us. filter_mset (\<lambda>x. k x = v) M) = ?M'" by simp
  then show ?case using multiset_partition [of M "\<lambda>x. k x = u"] by simp
qed

lemma mset_sessionized:
  "mset (concat (map (sessionize_partition t) (user_window df))) =
     image_mset (assign_session t df) (mset df)"
proof -
  have "mset (concat (map (sessionize_partition t) (user_window df))) =
      (\<Sum>u\<leftarrow>remdups (map user_id df). image_mset (assign_session t df) (filter_mset (\<lambda>e. user_id e = u) (mset df)))"
    by (simp add: mset_concat user_window_def comp_def sessionize_partition_user)
  also have "\<dots> = (\<Sum>u\<leftarrow>remdups (map user_id df).
       filter_mset (\<lambda>r. user_id r = u) (image_mset (assign_session t df) (mset df)))"
    by (simp add: filter_mset_image_mset assign_session_def)
  also have "\<dots> = image_mset (assign_session t df) (mset df)"
    by (rule sum_list_filter_mset_keys) (auto simp: assign_session_def)
  finally show ?thesis .
qed

lemma set_sessionized:
  "set (concat (map (sessionize_partition t) (user_window df))) = assign_session t df ` set df"
proof -
  have "set_mset (mset (concat (map (sessionize_partition t) (user_window df)))) =
      set_mset (image_mset (assign_session t df) (mset df))"
    by (simp only: mset_sessionized)
  then show ?thesis by simp
qed

lemma assign_session_simps [simp]:
  "user_id (assign_session t df e) = user_id e"
  "event_timestamp (assign_session t df e) = event_timestamp e"
  "event.truncate (assign_session t df e) = e"
  "session_id (assign_session t df e) =
     cast_string (user_id e) @ ''_'' @ cast_string (session_number t df (user_id e) (event_timestamp e))"
  by (simp_all add: assign_session_def)

lemma sessionize_events_Inr:
  "config ''session_timeout_seconds'' = Some (IntValue t) \<Longrightarrow> sessionize_events config df = Inr out \<Longrightarrow>
     out = concat (map (sessionize_partition t) (user_window df))"
  by (simp add: sessionize_events_def split: if_splits)

lemma mset_out:
  assumes "config ''session_timeout_seconds'' = Some (IntValue t)" "sessionize_events config df = Inr out"
  shows "mset out = image_mset (assign_session t df) (mset df)"
  unfolding sessionize_events_Inr [OF assms] by (rule mset_sessionized)

lemma set_out:
  assumes "config ''session_timeout_seconds'' = Some (IntValue t)" "sessionize_events config df = Inr out"
  shows "set out = assign_session t df ` set df"
  unfolding sessionize_events_Inr [OF assms] by (rule set_sessionized)

lemma session_number_nonneg: "0 \<le> session_number t df u k"
  by (simp add: session_number_def running_nonneg)

lemma session_id_row:
  assumes "config ''session_timeout_seconds'' = Some (IntValue t)" "sessionize_events config df = Inr out"
    and "r \<in> set out"
  shows "session_id r =
     cast_string (user_id r) @ ''_'' @ cast_string (session_number t df (user_id r) (event_timestamp r))"
  using set_out [OF assms(1,2)] assms(3) by auto

lemma session_id_eq_iff:
  assumes "config ''session_timeout_seconds'' = Some (IntValue t)" "sessionize_events config df = Inr out"
    and "a \<in> set out" "b \<in> set out" "user_id a = user_id b"
  shows "session_id a = session_id b \<longleftrightarrow>
     session_number t df (user_id a) (event_timestamp a) = session_number t df (user_id a) (event_timestamp b)"
  using session_id_row [OF assms(1,2,3)] session_id_row [OF assms(1,2,4)] assms(5)
    cast_string_inj_nonneg [OF session_number_nonneg session_number_nonneg]
  by auto

lemma mset_user_out:
  assumes "config ''session_timeout_seconds'' = Some (IntValue t)" "sessionize_events config df = Inr out"
  shows "mset (filter (\<lambda>r. user_id r = u) out) =
     image_mset (assign_session t df) (mset (filter (\<lambda>e. user_id e = u) df))"
  by (simp add: mset_out [OF assms] filter_mset_image_mset)

lemma user_rows_timestamps:
  assumes "config ''session_timeout_seconds'' = Some (IntValue t)" "sessionize_events config df = Inr out"
    and "mset rows = mset (filter (\<lambda>r. user_id r = u) out)"
    and "sorted (map event_timestamp rows)"
  shows "map event_timestamp rows = sort (map event_timestamp (filter (\<lambda>e. user_id e = u) df))"
proof -
  have "mset (map event_timestamp rows) = image_mset event_timestamp (mset rows)" by simp
  also have "\<dots> = image_mset event_timestamp
      (image_mset (assign_session t df) (mset (filter (\<lambda>e. user_id e = u) df)))"
    by (simp only: assms(3) mset_user_out [OF assms(1,2)])
  also have "\<dots> = mset (map event_timestamp (filter (\<lambda>e. user_id e = u) df))"
    by (simp add: multiset.map_comp comp_def)
  finally have "mset (map event_timestamp rows) =
      mset (map event_timestamp (filter (\<lambda>e. user_id e = u) df))" .
  then show ?thesis using assms(4) by (rule properties_for_sort [symmetric])
qed

text \<open>
  Claim C1. With a positive session timeout, let the output rows of one user be listed in
  ascending order of the timestamp (in any order of the rows with equal timestamps). Two
  neighbouring rows have the same \<^verbatim>\<open>session_id\<close> exactly when their timestamps differ by at
  most the timeout; when they differ by more, the later row has a \<^verbatim>\<open>session_id\<close> that no
  earlier row of the user has.
\<close>

theorem gap_rule:
  assumes cfg: "config ''session_timeout_seconds'' = Some (IntValue session_timeout)"
    and pos: "0 < session_timeout"
    and out: "sessionize_events config df = Inr out"
    and rows: "mset rows = mset (filter (\<lambda>r. user_id r = u) out)"
    and srt: "sorted (map event_timestamp rows)"
    and i: "Suc i < length rows"
  shows "(session_id (rows ! i) = session_id (rows ! Suc i)
            \<longleftrightarrow> event_timestamp (rows ! Suc i) - event_timestamp (rows ! i) \<le> session_timeout)
         \<and> (session_timeout < event_timestamp (rows ! Suc i) - event_timestamp (rows ! i)
            \<longrightarrow> (\<forall>j\<le>i. session_id (rows ! j) \<noteq> session_id (rows ! Suc i)))"
proof -
  let ?ts = "sort (map event_timestamp (filter (\<lambda>e. user_id e = u) df))"
  let ?n = "\<lambda>k. session_number session_timeout df u k"
  have ts: "map event_timestamp rows = ?ts"
    using cfg out rows srt by (rule user_rows_timestamps)
  have mem: "set rows = {r \<in> set out. user_id r = u}"
    using mset_eq_setD [OF rows] by auto
  have row: "rows ! j \<in> set out \<and> user_id (rows ! j) = u" if "j < length rows" for j
    using mem nth_mem [OF that] by auto
  have eq: "session_id (rows ! j) = session_id (rows ! k)
      \<longleftrightarrow> ?n (event_timestamp (rows ! j)) = ?n (event_timestamp (rows ! k))"
    if "j < length rows" "k < length rows" for j k
    using session_id_eq_iff [OF cfg out, of "rows ! j" "rows ! k"] row [OF that(1)] row [OF that(2)]
    by simp
  have nth: "event_timestamp (rows ! j) = ?ts ! j" if "j < length rows" for j
    using that ts by (metis nth_map)
  have len: "length ?ts = length rows" using ts by (metis length_map)
  have step: "?n (?ts ! Suc i) = ?n (?ts ! i) + (if ?ts ! Suc i - ?ts ! i > session_timeout then 1 else 0)"
    unfolding session_number_def using pos i len by (intro running_step) auto
  have i': "i < length rows" using i by simp
  have first: "session_id (rows ! i) = session_id (rows ! Suc i)
            \<longleftrightarrow> event_timestamp (rows ! Suc i) - event_timestamp (rows ! i) \<le> session_timeout"
    using eq [OF i' i] step by (auto simp: nth [OF i] nth [OF i'])
  have second: "session_id (rows ! j) \<noteq> session_id (rows ! Suc i)"
    if gap: "session_timeout < event_timestamp (rows ! Suc i) - event_timestamp (rows ! i)"
      and j: "j \<le> i" for j
  proof -
    have j': "j < length rows" using j i by simp
    have "?ts ! j \<le> ?ts ! i" using j i len by (intro sorted_nth_mono) auto
    then have "?n (?ts ! j) \<le> ?n (?ts ! i)"
      unfolding session_number_def by (rule running_mono)
    moreover have "?n (?ts ! i) < ?n (?ts ! Suc i)"
      using step gap by (simp add: nth [OF i] nth [OF i'])
    ultimately show ?thesis using eq [OF j' i] by (simp add: nth [OF i] nth [OF j'])
  qed
  from first second show ?thesis by blast
qed

lemma example_config_timeout: "example_config ''session_timeout_seconds'' = Some (IntValue 1800)"
  by (simp add: example_config_def)

lemma example_sessionize_events:
  "sessionize_events example_config example_events = Inr example_sessionized"
  by code_simp

lemma example_user_rows:
  "filter (\<lambda>r. user_id r = 1) example_sessionized =
     [with_session_id (example_event 1 1000 ''view'') ''1_1'',
      with_session_id (example_event 1 1030 ''purchase'') ''1_1'',
      with_session_id (example_event 1 8200 ''view'') ''1_2'']"
  by (simp add: example_sessionized_def example_event_def)

theorem gap_rule_witness:
  "example_config ''session_timeout_seconds'' = Some (IntValue 1800)
   \<and> sessionize_events example_config example_events = Inr example_sessionized
   \<and> sorted (map event_timestamp (filter (\<lambda>r. user_id r = 1) example_sessionized))
   \<and> event_timestamp (filter (\<lambda>r. user_id r = 1) example_sessionized ! 2)
        - event_timestamp (filter (\<lambda>r. user_id r = 1) example_sessionized ! 1) = 7170
   \<and> session_id (filter (\<lambda>r. user_id r = 1) example_sessionized ! 1)
        \<noteq> session_id (filter (\<lambda>r. user_id r = 1) example_sessionized ! 2)"
proof -
  let ?rows = "filter (\<lambda>r. user_id r = 1) example_sessionized"
  have pos: "(0::int) < 1800" by simp
  have m: "mset ?rows = mset (filter (\<lambda>r. user_id r = 1) example_sessionized)" by simp
  have s: "sorted (map event_timestamp ?rows)"
    by (simp add: example_user_rows example_event_def)
  have i: "Suc 1 < length ?rows" by (simp add: example_user_rows)
  have gap: "event_timestamp (?rows ! Suc 1) - event_timestamp (?rows ! 1) = 7170"
    by (simp add: example_user_rows example_event_def)
  have "session_id (?rows ! 1) = session_id (?rows ! Suc 1)
      \<longleftrightarrow> event_timestamp (?rows ! Suc 1) - event_timestamp (?rows ! 1) \<le> 1800"
    using gap_rule [OF example_config_timeout pos example_sessionize_events m s i] by (rule conjunct1)
  then have "session_id (?rows ! 1) \<noteq> session_id (?rows ! Suc 1)" unfolding gap by simp
  then show ?thesis using example_config_timeout example_sessionize_events s gap
    by (simp add: numeral_2_eq_2)
qed

lemma sort_cong_mset: "mset xs = mset ys \<Longrightarrow> sort xs = sort ys"
  by (rule properties_for_sort) simp_all

lemma assign_session_cong:
  assumes "mset df' = mset df"
  shows "assign_session t df' = assign_session t df"
proof
  fix e
  have "mset (map event_timestamp (filter (\<lambda>x. user_id x = u) df')) =
      mset (map event_timestamp (filter (\<lambda>x. user_id x = u) df))" for u
    by (simp add: assms)
  then have "sort (map event_timestamp (filter (\<lambda>x. user_id x = u) df')) =
      sort (map event_timestamp (filter (\<lambda>x. user_id x = u) df))" for u
    by (rule sort_cong_mset)
  then have "session_number t df' u k = session_number t df u k" for u k
    unfolding session_number_def by simp
  then show "assign_session t df' e = assign_session t df e"
    by (simp add: assign_session_def)
qed

lemma sessionize_partition_arrangement:
  assumes "mset rows = mset (filter (\<lambda>e. user_id e = u) df)"
    and "sorted (map event_timestamp rows)"
  shows "sessionize_partition t rows = map (assign_session t df) rows"
proof -
  have "mset (map event_timestamp rows) = mset (map event_timestamp (filter (\<lambda>e. user_id e = u) df))"
    by (simp add: assms(1))
  then have ts: "map event_timestamp rows = sort (map event_timestamp (filter (\<lambda>e. user_id e = u) df))"
    using assms(2) by (rule properties_for_sort [symmetric])
  have "user_id e = u" if "e \<in> set rows" for e
    using that mset_eq_setD [OF assms(1)] by auto
  then show ?thesis
    by (auto simp: sessionize_partition_map assign_session_def session_number_def ts)
qed

text \<open>
  Claim C9. Two output rows of one user with equal timestamps have the same
  \<^verbatim>\<open>session_id\<close>. The assignment does not depend on the order of the input rows: any
  rearrangement of the input gives the same output rows, and whatever ascending arrangement
  of a user's partition the window takes (that is, whatever order it gives to rows with
  equal timestamps), the rows get the session ids of the output.
\<close>

theorem timestamp_ties_same_session:
  assumes cfg: "config ''session_timeout_seconds'' = Some (IntValue session_timeout)"
    and out: "sessionize_events config df = Inr out"
  shows "(\<forall>a\<in>set out. \<forall>b\<in>set out.
            user_id a = user_id b \<and> event_timestamp a = event_timestamp b
              \<longrightarrow> session_id a = session_id b)
         \<and> (\<forall>df' out'. mset df' = mset df \<and> sessionize_events config df' = Inr out'
              \<longrightarrow> mset out' = mset out)
         \<and> (\<forall>u rows. mset rows = mset (filter (\<lambda>e. user_id e = u) df)
                        \<and> sorted (map event_timestamp rows)
              \<longrightarrow> mset (sessionize_partition session_timeout rows)
                    = mset (filter (\<lambda>r. user_id r = u) out))"
proof (intro conjI ballI allI impI)
  fix a b assume "a \<in> set out" "b \<in> set out"
    and "user_id a = user_id b \<and> event_timestamp a = event_timestamp b"
  then show "session_id a = session_id b"
    using session_id_row [OF cfg out] by simp
next
  fix df' out' assume a: "mset df' = mset df \<and> sessionize_events config df' = Inr out'"
  then have out': "sessionize_events config df' = Inr out'" and m: "mset df' = mset df"
    by simp_all
  have "mset out' = image_mset (assign_session session_timeout df') (mset df')"
    using cfg out' by (rule mset_out)
  also have "\<dots> = image_mset (assign_session session_timeout df) (mset df)"
    by (simp only: assign_session_cong [OF m] m)
  also have "\<dots> = mset out" using mset_out [OF cfg out] by simp
  finally show "mset out' = mset out" .
next
  fix u rows
  assume a: "mset rows = mset (filter (\<lambda>e. user_id e = u) df) \<and> sorted (map event_timestamp rows)"
  then have "sessionize_partition session_timeout rows = map (assign_session session_timeout df) rows"
    using sessionize_partition_arrangement by blast
  then have "mset (sessionize_partition session_timeout rows) =
      image_mset (assign_session session_timeout df) (mset rows)" by simp
  then show "mset (sessionize_partition session_timeout rows) = mset (filter (\<lambda>r. user_id r = u) out)"
    using a mset_user_out [OF cfg out, of u] by simp
qed

lemma mset_filter_by_key:
  "(\<Sum>v\<leftarrow>remdups (map k xs). mset (filter (\<lambda>x. k x = v) xs)) = mset xs"
proof -
  have "(\<Sum>v\<leftarrow>remdups (map k xs). filter_mset (\<lambda>x. k x = v) (mset xs)) = mset xs"
    by (rule sum_list_filter_mset_keys) auto
  then show ?thesis by simp
qed

text \<open>
  Claim C7. The output holds every input event once, with one \<^verbatim>\<open>session_id\<close>; for every
  user the sessions (the groups of the user's rows by \<^verbatim>\<open>session_id\<close>) add up to the user's
  rows; two different sessions share no row; and a row of the user whose timestamp lies
  between the timestamps of two rows of one session is in that session.
\<close>

theorem sessions_partition_events:
  assumes cfg: "config ''session_timeout_seconds'' = Some (IntValue session_timeout)"
    and out: "sessionize_events config df = Inr out"
  shows "mset (map event.truncate out) = mset df
         \<and> (\<forall>u. mset (map event.truncate (filter (\<lambda>r. user_id r = u) out))
                  = mset (filter (\<lambda>e. user_id e = u) df))
         \<and> (\<forall>u. (\<Sum>sid\<leftarrow>remdups (map session_id (filter (\<lambda>r. user_id r = u) out)).
                     mset (filter (\<lambda>r. session_id r = sid) (filter (\<lambda>r. user_id r = u) out)))
                  = mset (filter (\<lambda>r. user_id r = u) out))
         \<and> (\<forall>sid sid'. sid \<noteq> sid' \<longrightarrow>
                {i. i < length out \<and> session_id (out ! i) = sid}
                  \<inter> {i. i < length out \<and> session_id (out ! i) = sid'} = {})
         \<and> (\<forall>a\<in>set out. \<forall>b\<in>set out. \<forall>c\<in>set out.
                user_id a = user_id b \<and> user_id c = user_id a \<and> session_id a = session_id b
                \<and> event_timestamp a \<le> event_timestamp c \<and> event_timestamp c \<le> event_timestamp b
                \<longrightarrow> session_id c = session_id a)"
proof (intro conjI ballI allI impI)
  show "mset (map event.truncate out) = mset df"
    by (simp add: mset_out [OF cfg out] multiset.map_comp comp_def)
next
  fix u
  show "mset (map event.truncate (filter (\<lambda>r. user_id r = u) out)) = mset (filter (\<lambda>e. user_id e = u) df)"
    using mset_user_out [OF cfg out, of u] by (simp add: multiset.map_comp comp_def)
next
  fix u
  show "(\<Sum>sid\<leftarrow>remdups (map session_id (filter (\<lambda>r. user_id r = u) out)).
           mset (filter (\<lambda>r. session_id r = sid) (filter (\<lambda>r. user_id r = u) out)))
        = mset (filter (\<lambda>r. user_id r = u) out)"
    by (rule mset_filter_by_key)
next
  fix sid sid' :: string assume "sid \<noteq> sid'"
  then show "{i. i < length out \<and> session_id (out ! i) = sid}
      \<inter> {i. i < length out \<and> session_id (out ! i) = sid'} = {}" by auto
next
  fix a b c
  assume a: "a \<in> set out" and b: "b \<in> set out" and c: "c \<in> set out"
    and h: "user_id a = user_id b \<and> user_id c = user_id a \<and> session_id a = session_id b
        \<and> event_timestamp a \<le> event_timestamp c \<and> event_timestamp c \<le> event_timestamp b"
  let ?n = "session_number session_timeout df (user_id a)"
  have ab: "?n (event_timestamp a) = ?n (event_timestamp b)"
    using session_id_eq_iff [OF cfg out a b] h by simp
  have "?n (event_timestamp a) \<le> ?n (event_timestamp c)" "?n (event_timestamp c) \<le> ?n (event_timestamp b)"
    using h unfolding session_number_def by (simp_all add: running_mono)
  with ab have "?n (event_timestamp c) = ?n (event_timestamp a)" by simp
  then show "session_id c = session_id a"
    using session_id_eq_iff [OF cfg out c a] h by simp
qed

text \<open>
  Claim C2, amended. With a non-negative session timeout, a chronologically first row of a
  user gets session number 1: its \<^verbatim>\<open>session_id\<close> is the user id, an underscore and 1. A
  row with no row before it in its partition has a null \<^verbatim>\<open>time_diff\<close>, and a null
  \<^verbatim>\<open>time_diff\<close> sets \<^verbatim>\<open>new_session_flag\<close> to 1.
\<close>

theorem first_event_starts_session_one:
  assumes cfg: "config ''session_timeout_seconds'' = Some (IntValue session_timeout)"
    and nonneg: "0 \<le> session_timeout"
    and out: "sessionize_events config df = Inr out"
    and r: "r \<in> set out"
    and first: "\<forall>r'\<in>set out. user_id r' = user_id r \<longrightarrow> event_timestamp r \<le> event_timestamp r'"
  shows "session_id r = cast_string (user_id r) @ ''_1''
         \<and> (\<forall>ts. ts \<noteq> [] \<longrightarrow>
               hd (time_diff_column ts) = None
               \<and> hd (map (new_session_flag session_timeout) (time_diff_column ts)) = 1)"
proof -
  let ?ts = "sort (map event_timestamp (filter (\<lambda>e. user_id e = user_id r) df))"
  obtain e where e: "e \<in> set df" "r = assign_session session_timeout df e"
    using set_out [OF cfg out] r by auto
  have mem: "event_timestamp r \<in> set ?ts" using e by (auto simp: image_iff)
  have low: "event_timestamp r \<le> k" if "k \<in> set ?ts" for k
  proof -
    from that obtain e' where e': "e' \<in> set df" "user_id e' = user_id r" "k = event_timestamp e'"
      by auto
    have "assign_session session_timeout df e' \<in> set out"
      using set_out [OF cfg out] e'(1) by simp
    then show ?thesis using first e' by fastforce
  qed
  obtain x xs where ts: "?ts = x # xs" using mem by (cases ?ts) auto
  have s: "sorted (x # xs)" using ts sorted_sort [of "map event_timestamp (filter (\<lambda>e. user_id e = user_id r) df)"]
    by simp
  have "x \<le> event_timestamp r" using mem s unfolding ts by auto
  moreover have "event_timestamp r \<le> x" using low [of x] unfolding ts by simp
  ultimately have x: "x = event_timestamp r" by simp
  have "session_number session_timeout df (user_id r) (event_timestamp r) = 1"
    unfolding session_number_def ts x [symmetric] using nonneg s by (rule running_first)
  then have "session_id r = cast_string (user_id r) @ ''_1''"
    using session_id_row [OF cfg out r] by (simp add: cast_string_one)
  moreover have "hd (time_diff_column ts) = None
      \<and> hd (map (new_session_flag session_timeout) (time_diff_column ts)) = 1" if "ts \<noteq> []" for ts
    using that by (cases ts) (simp_all add: time_diff_column_def lag_def new_session_flag_def)
  ultimately show ?thesis by blast
qed

lemma example_single_event:
  "sessionize_events [''session_timeout_seconds'' \<mapsto> IntValue 1800] [example_event 1 1000 ''view'']
     = Inr [with_session_id (example_event 1 1000 ''view'') ''1_1'']"
  by code_simp

lemma example_negative_timeout_tie:
  "sessionize_events [''session_timeout_seconds'' \<mapsto> IntValue (- 1)]
       [example_event 1 1000 ''view'', example_event 1 1000 ''cart'']
     = Inr [with_session_id (example_event 1 1000 ''view'') ''1_2'',
            with_session_id (example_event 1 1000 ''cart'') ''1_2'']"
  by code_simp

lemma cast_string_zero: "cast_string 0 = ''0''"
  by (simp add: cast_string_def digits.simps digit_char_def)

text \<open>
  Claim C2 as stated fails: the only event of a user gets session number 1, not 0. With a
  negative timeout two events with the user's first timestamp both get number 2.
\<close>

theorem first_event_session_zero_counterexample:
  "map session_id (projr (sessionize_events [''session_timeout_seconds'' \<mapsto> IntValue 1800]
       [example_event 1 1000 ''view''])) = [''1_1'']
   \<and> ''1_1'' \<noteq> cast_string 1 @ ''_'' @ cast_string 0
   \<and> map session_id (projr (sessionize_events [''session_timeout_seconds'' \<mapsto> IntValue (- 1)]
       [example_event 1 1000 ''view'', example_event 1 1000 ''cart''])) = [''1_2'', ''1_2'']"
  by (simp add: example_single_event example_negative_timeout_tie cast_string_one cast_string_zero)

text \<open>
  Claim C5, amended. When \<^verbatim>\<open>session_timeout_seconds\<close> is absent from the configuration and
  the loader has returned the cleaned events, \<^verbatim>\<open>_sessionize_events\<close> raises KeyError before
  any column is computed and \<^verbatim>\<open>run\<close> ends with that error, without a table; when the loader
  itself ends with an exception, \<^verbatim>\<open>run\<close> ends with the loader's. An integer timeout in the
  64-bit range is accepted whatever its sign: no error is raised and every event is
  sessionized with it.
\<close>

theorem missing_timeout_key_error_any_sign_accepted:
  "(config ''session_timeout_seconds'' = None \<longrightarrow>
       sessionize_events config df = Inl (KeyError ''session_timeout_seconds'')
       \<and> run config (Inr df) = Inl (KeyError ''session_timeout_seconds''))
   \<and> (\<forall>e. run config (Inl e) = Inl e)
   \<and> (\<forall>t. config ''session_timeout_seconds'' = Some (IntValue t) \<and> - (2 ^ 63) \<le> t \<and> t < 2 ^ 63
         \<longrightarrow> sessionize_events config df
               = Inr (concat (map (sessionize_partition t) (user_window df)))
             \<and> mset (map event.truncate (concat (map (sessionize_partition t) (user_window df))))
               = mset df)"
proof (intro conjI allI impI)
  assume "config ''session_timeout_seconds'' = None"
  then show "sessionize_events config df = Inl (KeyError ''session_timeout_seconds'')"
    and "run config (Inr df) = Inl (KeyError ''session_timeout_seconds'')"
    by (simp_all add: sessionize_events_def run_def)
next
  fix e show "run config (Inl e) = Inl e" by (simp add: run_def)
next
  fix t
  assume "config ''session_timeout_seconds'' = Some (IntValue t) \<and> - (2 ^ 63) \<le> t \<and> t < 2 ^ 63"
  then show "sessionize_events config df
      = Inr (concat (map (sessionize_partition t) (user_window df)))"
    by (simp add: sessionize_events_def)
next
  fix t
  show "mset (map event.truncate (concat (map (sessionize_partition t) (user_window df)))) = mset df"
    by (simp add: mset_sessionized multiset.map_comp comp_def assign_session_def)
qed

theorem missing_timeout_key_error_any_sign_accepted_witness:
  "(Map.empty :: config) ''session_timeout_seconds'' = None
   \<and> sessionize_events Map.empty example_events = Inl (KeyError ''session_timeout_seconds'')
   \<and> run Map.empty (Inr example_events) = Inl (KeyError ''session_timeout_seconds'')"
  using missing_timeout_key_error_any_sign_accepted [of Map.empty example_events] by simp

lemma example_zero_timeout:
  "sessionize_events [''session_timeout_seconds'' \<mapsto> IntValue 0] [example_event 1 1000 ''view'']
     = Inr [with_session_id (example_event 1 1000 ''view'') ''1_1'']"
  by code_simp

lemma example_negative_timeout:
  "sessionize_events [''session_timeout_seconds'' \<mapsto> IntValue (- 5)] [example_event 1 1000 ''view'']
     = Inr [with_session_id (example_event 1 1000 ''view'') ''1_1'']"
  by code_simp

text \<open>
  Claim C5 as stated fails: with the timeout 0 or -5 no error is raised and the events are
  sessionized.
\<close>

theorem nonpositive_timeout_accepted_counterexample:
  "sessionize_events [''session_timeout_seconds'' \<mapsto> IntValue 0] [example_event 1 1000 ''view'']
     = Inr [with_session_id (example_event 1 1000 ''view'') ''1_1'']
   \<and> sessionize_events [''session_timeout_seconds'' \<mapsto> IntValue (- 5)] [example_event 1 1000 ''view'']
     = Inr [with_session_id (example_event 1 1000 ''view'') ''1_1'']"
  using example_zero_timeout example_negative_timeout by (rule conjI)

lemma example_tied:
  "sessionize_events example_config example_tied_events = Inr example_tied_sessionized"
  by code_simp

theorem timestamp_ties_same_session_witness:
  "example_config ''session_timeout_seconds'' = Some (IntValue 1800)
   \<and> sessionize_events example_config example_tied_events = Inr example_tied_sessionized
   \<and> hd example_tied_sessionized \<in> set example_tied_sessionized
   \<and> last example_tied_sessionized \<in> set example_tied_sessionized
   \<and> hd example_tied_sessionized \<noteq> last example_tied_sessionized
   \<and> user_id (hd example_tied_sessionized) = user_id (last example_tied_sessionized)
   \<and> event_timestamp (hd example_tied_sessionized) = event_timestamp (last example_tied_sessionized)
   \<and> session_id (hd example_tied_sessionized) = session_id (last example_tied_sessionized)"
proof -
  let ?a = "hd example_tied_sessionized" and ?b = "last example_tied_sessionized"
  have a: "?a \<in> set example_tied_sessionized" and b: "?b \<in> set example_tied_sessionized"
    by (simp_all add: example_tied_sessionized_def)
  have ne: "?a \<noteq> ?b"
    by (simp add: example_tied_sessionized_def example_event_def with_session_id_def
        event.defs sessionized_event.defs)
  have h: "user_id ?a = user_id ?b \<and> event_timestamp ?a = event_timestamp ?b"
    by (simp add: example_tied_sessionized_def example_event_def)
  have "session_id ?a = session_id ?b"
    using timestamp_ties_same_session [OF example_config_timeout example_tied, THEN conjunct1,
        THEN bspec, OF a, THEN bspec, OF b] h by blast
  then show ?thesis using example_config_timeout example_tied a b ne h by blast
qed

theorem sessions_partition_events_witness:
  "example_config ''session_timeout_seconds'' = Some (IntValue 1800)
   \<and> sessionize_events example_config example_events = Inr example_sessionized
   \<and> mset (map event.truncate example_sessionized) = mset example_events
   \<and> length example_sessionized = 4"
proof -
  have "mset (map event.truncate example_sessionized) = mset example_events"
    using sessions_partition_events [OF example_config_timeout example_sessionize_events]
    by (rule conjunct1)
  moreover have "length example_sessionized = 4" by (simp add: example_sessionized_def)
  ultimately show ?thesis using example_config_timeout example_sessionize_events by blast
qed

theorem first_event_starts_session_one_witness:
  "example_config ''session_timeout_seconds'' = Some (IntValue 1800)
   \<and> sessionize_events example_config example_events = Inr example_sessionized
   \<and> example_sessionized ! 1 \<in> set example_sessionized
   \<and> user_id (example_sessionized ! 1) = 1
   \<and> event_timestamp (example_sessionized ! 1) = 1000
   \<and> session_id (example_sessionized ! 1) = ''1_1''"
proof -
  let ?r = "example_sessionized ! 1"
  have nonneg: "(0::int) \<le> 1800" by simp
  have r: "?r \<in> set example_sessionized" by (simp add: example_sessionized_def)
  have u: "user_id ?r = 1" and t: "event_timestamp ?r = 1000"
    by (simp_all add: example_sessionized_def example_event_def)
  have first: "\<forall>r'\<in>set example_sessionized. user_id r' = user_id ?r
      \<longrightarrow> event_timestamp ?r \<le> event_timestamp r'"
    by (simp add: example_sessionized_def example_event_def)
  have "session_id ?r = cast_string (user_id ?r) @ ''_1''"
    using first_event_starts_session_one
      [OF example_config_timeout nonneg example_sessionize_events r first]
    by (rule conjunct1)
  then have "session_id ?r = ''1'' @ ''_1''" unfolding u cast_string_one .
  then have "session_id ?r = ''1_1''" by simp
  then show ?thesis using example_config_timeout example_sessionize_events r u t by blast
qed

section \<open>Properties of the double arithmetic\<close>

lemma bit_length_bounds:
  "0 < n \<Longrightarrow> (2::nat) ^ (bit_length n - 1) \<le> n \<and> n < (2::nat) ^ bit_length n"
proof (induction n rule: bit_length.induct)
  case (1 n)
  show ?case
  proof (cases "n div 2 = 0")
    case True
    with "1.prems" have "n = 1" by presburger
    then show ?thesis by (simp add: bit_length.simps)
  next
    case False
    then have ih: "(2::nat) ^ (bit_length (n div 2) - 1) \<le> n div 2
        \<and> n div 2 < (2::nat) ^ bit_length (n div 2)"
      using "1.IH" "1.prems" by simp
    have pos: "0 < bit_length (n div 2)" using False by (simp add: bit_length.simps)
    have bl: "bit_length n = Suc (bit_length (n div 2))" using "1.prems" by (simp add: bit_length.simps)
    have p: "(2::nat) ^ bit_length (n div 2) = 2 * 2 ^ (bit_length (n div 2) - 1)"
      using pos by (cases "bit_length (n div 2)") simp_all
    have lo: "(2::nat) ^ bit_length (n div 2) \<le> n"
    proof -
      have "(2::nat) ^ bit_length (n div 2) \<le> 2 * (n div 2)" using ih p by simp
      also have "\<dots> \<le> n" by simp
      finally show ?thesis .
    qed
    have hi: "n < 2 * (2::nat) ^ bit_length (n div 2)"
    proof -
      have "n < 2 * (n div 2) + 2" by presburger
      also have "\<dots> \<le> 2 * (2::nat) ^ bit_length (n div 2)" using ih by simp
      finally show ?thesis .
    qed
    show ?thesis using lo hi by (simp add: bl)
  qed
qed

lemma floor_bit_length:
  assumes "1 \<le> (y::rat)"
  shows "2 ^ (bit_length (nat \<lfloor>y\<rfloor>) - 1) \<le> y \<and> y < 2 ^ bit_length (nat \<lfloor>y\<rfloor>)"
proof -
  let ?n = "nat \<lfloor>y\<rfloor>"
  have f: "1 \<le> \<lfloor>y\<rfloor>" using assms by simp
  then have n: "0 < ?n" by simp
  have b: "(2::nat) ^ (bit_length ?n - 1) \<le> ?n" "?n < (2::nat) ^ bit_length ?n"
    using bit_length_bounds [OF n] by simp_all
  have "of_nat ((2::nat) ^ (bit_length ?n - 1)) \<le> (of_nat ?n :: rat)"
    using b(1) by (simp only: of_nat_le_iff)
  also have "(of_nat ?n :: rat) = of_int \<lfloor>y\<rfloor>" using f by simp
  also have "\<dots> \<le> y" by simp
  finally have lo: "2 ^ (bit_length ?n - 1) \<le> y" by simp
  have "\<lfloor>y\<rfloor> < int ((2::nat) ^ bit_length ?n)" using b(2) f by linarith
  then have "\<lfloor>y\<rfloor> + 1 \<le> 2 ^ bit_length ?n" by simp
  then have "(of_int (\<lfloor>y\<rfloor> + 1) :: rat) \<le> of_int (2 ^ bit_length ?n)"
    by (simp only: of_int_le_iff)
  moreover have "y < of_int (\<lfloor>y\<rfloor> + 1)" by linarith
  ultimately have "y < 2 ^ bit_length ?n" by simp
  with lo show ?thesis by simp
qed

lemma binade_bounds:
  assumes "0 < x"
  shows "2 powi binade x \<le> x \<and> x < 2 powi (binade x + 1)"
proof (cases "1 \<le> x")
  case True
  let ?b = "bit_length (nat \<lfloor>x\<rfloor>)"
  have b: "2 ^ (?b - 1) \<le> x" "x < 2 ^ ?b" using floor_bit_length [OF True] by simp_all
  have pos: "0 < ?b" using True by (simp add: bit_length.simps)
  have e: "binade x = int (?b - 1)" using True pos by (simp add: binade_def)
  have e': "binade x + 1 = int ?b" using e pos by simp
  have "(2::rat) powi binade x = 2 ^ (?b - 1)" by (simp only: e power_int_of_nat)
  moreover have "(2::rat) powi (binade x + 1) = 2 ^ ?b" by (simp only: e' power_int_of_nat)
  ultimately show ?thesis using b by simp
next
  case False
  let ?y = "1 / x"
  let ?b = "bit_length (nat \<lfloor>?y\<rfloor>)"
  have y1: "1 \<le> ?y" using assms False by simp
  have b: "2 ^ (?b - 1) \<le> ?y" "?y < 2 ^ ?b" using floor_bit_length [OF y1] by simp_all
  have pos: "0 < ?b" using y1 by (simp add: bit_length.simps)
  define k where "k = ?b - 1"
  have kb: "int ?b - 1 = int k" "?b = Suc k" using pos by (simp_all add: k_def)
  have up: "x * 2 ^ k \<le> 1" using b(1) assms by (simp add: k_def field_simps)
  have low: "1 < x * 2 ^ Suc k" using b(2) assms kb by (simp add: field_simps)
  show ?thesis
  proof (cases "x * 2 ^ k = 1")
    case True
    then have e: "binade x = - int k"
      using False kb by (simp add: binade_def Let_def power_int_of_nat)
    have x: "x = 1 / 2 ^ k" using True by (simp add: field_simps)
    have "2 powi (- int k) = 1 / (2::rat) ^ k"
      by (simp add: power_int_minus power_int_of_nat field_simps)
    moreover have "(1::rat) / 2 ^ k < 2 powi (- int k + 1)"
    proof -
      have "(2::rat) powi (- int k + 1) = 2 powi (- int k) * 2"
        using power_int_add [of "2::rat" "- int k" 1] by simp
      also have "\<dots> = 2 * (1 / 2 ^ k)"
        by (simp add: power_int_minus power_int_of_nat field_simps)
      finally have p: "(2::rat) powi (- int k + 1) = 2 * (1 / 2 ^ k)" .
      have "(0::rat) < 1 / 2 ^ k" by simp
      then show ?thesis unfolding p by linarith
    qed
    ultimately show ?thesis using x e by simp
  next
    case ne: False
    then have e: "binade x = - int k - 1"
      using False kb by (simp add: binade_def Let_def power_int_of_nat)
    have p1: "2 powi (- int k - 1) = 1 / (2::rat) ^ Suc k"
    proof -
      have "- int k - 1 = - int (Suc k)" by simp
      then show ?thesis by (simp only: power_int_minus power_int_of_nat inverse_eq_divide)
    qed
    have p2: "2 powi (- int k - 1 + 1) = 1 / (2::rat) ^ k"
      by (simp add: power_int_minus power_int_of_nat field_simps)
    have "1 / 2 ^ Suc k < x" using low by (simp add: field_simps)
    moreover have "x < 1 / 2 ^ k" using up ne by (simp add: field_simps)
    ultimately show ?thesis using e p1 p2 by simp
  qed
qed

lemma round_half_even_near: "\<bar>q - of_int m\<bar> < 1 / 2 \<Longrightarrow> round_half_even q = m"
proof -
  assume a: "\<bar>q - of_int m\<bar> < 1 / 2"
  show ?thesis
  proof (cases "of_int m \<le> q")
    case True
    then have "\<lfloor>q\<rfloor> = m" using a by (intro floor_unique) auto
    then show ?thesis using a True by (simp add: round_half_even_def Let_def)
  next
    case False
    then have f: "\<lfloor>q\<rfloor> = m - 1" using a by (intro floor_unique) auto
    have "1 / 2 < q - of_int (m - 1)" using a False by auto
    then show ?thesis using f by (simp add: round_half_even_def Let_def)
  qed
qed

lemma binade_unique:
  assumes "0 < x" "2 powi e \<le> x" "x < 2 powi (e + 1)"
  shows "binade x = e"
proof (rule ccontr)
  assume ne: "binade x \<noteq> e"
  have b: "2 powi binade x \<le> x" "x < 2 powi (binade x + 1)"
    using binade_bounds [OF assms(1)] by simp_all
  show False
  proof (cases "binade x < e")
    case True
    then have "(2::rat) powi (binade x + 1) \<le> 2 powi e" by (intro power_int_increasing) auto
    then show False using b(2) assms(2) by linarith
  next
    case False
    with ne have "(2::rat) powi (e + 1) \<le> 2 powi binade x" by (intro power_int_increasing) auto
    then show False using b(1) assms(3) by linarith
  qed
qed

lemma to_double_normal:
  assumes "0 < x" "k \<le> 1074" "2 ^ 52 \<le> x * 2 ^ k" "x * 2 ^ k < 2 ^ 53"
    and "\<bar>x * 2 ^ k - of_int m\<bar> < 1 / 2"
  shows "to_double x = of_int m / 2 ^ k"
proof -
  have pk: "(2::rat) powi (- int k) = 1 / 2 ^ k"
    by (simp add: power_int_minus power_int_of_nat field_simps)
  have p52: "(2::rat) powi (52 - int k) = 2 ^ 52 / 2 ^ k"
    using power_int_add [of "2::rat" 52 "- int k"] pk by simp
  have p53: "(2::rat) powi (52 - int k + 1) = 2 ^ 53 / 2 ^ k"
    using power_int_add [of "2::rat" 53 "- int k"] pk by (simp add: algebra_simps)
  have "2 powi (52 - int k) \<le> x" using assms(3) unfolding p52 by (simp add: field_simps)
  moreover have "x < 2 powi (52 - int k + 1)" using assms(4) unfolding p53 by (simp add: field_simps)
  ultimately have e: "binade x = 52 - int k" using assms(1) by (intro binade_unique) auto
  have mx: "max (binade x) (- 1022) = 52 - int k" using e assms(2) by simp
  have "round_half_even (x / 2 powi (- int k)) = m"
    using assms(5) unfolding pk by (intro round_half_even_near) simp
  then show ?thesis using assms(1) mx pk by (simp add: to_double_def Let_def)
qed

lemma to_double_of_nat:
  assumes "0 < N" "N < 2 ^ 53"
  shows "to_double (of_nat N) = of_nat N"
proof -
  let ?b = "bit_length N"
  have b: "(2::nat) ^ (?b - 1) \<le> N" "N < (2::nat) ^ ?b"
    using bit_length_bounds [OF assms(1)] by simp_all
  have bpos: "0 < ?b" using assms(1) by (simp add: bit_length.simps)
  have "(2::nat) ^ (?b - 1) < 2 ^ 53" using b(1) assms(2) by (rule le_less_trans)
  then have "?b - 1 < 53" by (rule power_less_imp_less_exp [rotated]) simp
  then have le: "?b \<le> 53" by simp
  define k where "k = 53 - ?b"
  have kb: "?b + k = 53" "(?b - 1) + k = 52" using le bpos by (simp_all add: k_def)
  have k: "k \<le> 1074" by (simp add: k_def)
  have "(2::nat) ^ (?b - 1) * 2 ^ k \<le> N * 2 ^ k" using b(1) by simp
  then have "(2::nat) ^ 52 \<le> N * 2 ^ k" by (simp only: power_add [symmetric] kb)
  then have "(of_nat ((2::nat) ^ 52) :: rat) \<le> of_nat (N * 2 ^ k)" by (simp only: of_nat_le_iff)
  then have lo: "(2::rat) ^ 52 \<le> of_nat N * 2 ^ k" by (simp only: of_nat_mult of_nat_power of_nat_numeral)
  have "N * 2 ^ k < (2::nat) ^ ?b * 2 ^ k" using b(2) by simp
  then have "N * 2 ^ k < (2::nat) ^ 53" by (simp only: power_add [symmetric] kb)
  then have "(of_nat (N * 2 ^ k) :: rat) < of_nat ((2::nat) ^ 53)" by (simp only: of_nat_less_iff)
  then have hi: "of_nat N * (2::rat) ^ k < 2 ^ 53" by (simp only: of_nat_mult of_nat_power of_nat_numeral)
  have near: "\<bar>of_nat N * (2::rat) ^ k - of_int (int (N * 2 ^ k))\<bar> < 1 / 2" by simp
  have xpos: "(0::rat) < of_nat N" using assms(1) by simp
  have "to_double (of_nat N) = of_int (int (N * 2 ^ k)) / 2 ^ k"
    using xpos k lo hi near by (rule to_double_normal)
  also have "\<dots> = of_nat N" by simp
  finally show ?thesis .
qed

lemma to_double_of_int:
  assumes "0 \<le> n" "n < 2 ^ 53"
  shows "to_double (of_int n) = of_int n"
proof (cases "n = 0")
  case True
  then show ?thesis by (simp add: to_double_def)
next
  case False
  have pos: "0 < nat n" using assms(1) False by simp
  have "int (nat n) < int (2 ^ 53)" using assms by simp
  then have "nat n < 2 ^ 53" by (simp only: of_nat_less_iff)
  then have "to_double (of_nat (nat n)) = of_nat (nat n)" using pos by (rule to_double_of_nat [rotated])
  moreover have "(of_nat (nat n) :: rat) = of_int n" using assms(1) by simp
  ultimately show ?thesis by simp
qed

lemma double_sum_from:
  "0 \<le> a \<Longrightarrow> \<forall>v\<in>set vs. 0 \<le> v \<Longrightarrow> a + sum_list vs < 2 ^ 53 \<Longrightarrow>
     foldl (\<lambda>acc v. to_double (acc + to_double (of_int v))) (of_int a) vs = of_int (a + sum_list vs)"
proof (induction vs arbitrary: a)
  case Nil
  then show ?case by simp
next
  case (Cons v vs)
  have v: "0 \<le> v" and rest: "\<forall>w\<in>set vs. 0 \<le> w" using Cons.prems(2) by simp_all
  have nonneg: "0 \<le> sum_list vs" using rest by (simp add: sum_list_nonneg)
  have "v < 2 ^ 53" using Cons.prems nonneg by simp
  then have tv: "to_double (of_int v) = of_int v" using v by (rule to_double_of_int [rotated])
  have "a + v < 2 ^ 53" using Cons.prems nonneg by simp
  then have "to_double (of_int (a + v)) = of_int (a + v)"
    using Cons.prems(1) v by (intro to_double_of_int) simp_all
  then have step: "to_double (of_int a + to_double (of_int v)) = of_int (a + v)" using tv by simp
  have "foldl (\<lambda>acc v. to_double (acc + to_double (of_int v))) (of_int (a + v)) vs
      = of_int (a + v + sum_list vs)"
    using Cons.prems v rest by (intro Cons.IH) (simp_all add: add.assoc)
  then show ?case using step by (simp add: add.assoc)
qed

lemma double_sum_exact:
  "\<forall>v\<in>set vs. 0 \<le> v \<Longrightarrow> sum_list vs < 2 ^ 53 \<Longrightarrow> double_sum vs = of_int (sum_list vs)"
  using double_sum_from [of 0 vs] by (simp add: double_sum_def)

lemma to_double_4001_3: "to_double (4001 / 3) = 5865528030309035 / 4398046511104"
  using to_double_normal [of "4001 / 3" 42 5865528030309035] by simp

lemma to_double_avg_3600:
  "to_double (5865528030309035 / 4398046511104 / 3600) = 834208430977285 / 2251799813685248"
  using to_double_normal [of "5865528030309035 / 4398046511104 / 3600" 54 6673667447818280] by simp

lemma to_double_4001_10800: "to_double (4001 / 10800) = 6673667447818279 / 18014398509481984"
  using to_double_normal [of "4001 / 10800" 54 6673667447818279] by simp

lemma to_double_7170_3600: "to_double (7170 / 3600) = 4484834628923119 / 2251799813685248"
  using to_double_normal [of "7170 / 3600" 52 8969669257846238] by simp


section \<open>Properties of the user aggregation\<close>

lemma length_start_gaps: "length (start_gaps xs) = length xs - 1"
  by (induction xs rule: start_gaps.induct) auto

lemma nth_start_gaps: "Suc i < length xs \<Longrightarrow> start_gaps xs ! i = xs ! Suc i - xs ! i"
proof (induction xs arbitrary: i rule: start_gaps.induct)
  case (1 x y xs)
  then show ?case by (cases i) auto
qed auto

lemma nth_gaps_start_gaps: "map (\<lambda>i. s ! i - s ! (i - 1)) [1..<length s] = start_gaps s"
  by (rule nth_equalityI) (auto simp: length_start_gaps nth_start_gaps)

lemma spec_session_gaps_eq: "spec_session_gaps starts = start_gaps (sort starts)"
  using nth_gaps_start_gaps [of "sort starts"] by (simp add: spec_session_gaps_def Let_def)

lemma lag_diff_some:
  "non_null (map2 (\<lambda>s p. map_option (\<lambda>p. s - p) p) xs (take (length xs) (Some p # map Some xs)))
     = start_gaps (p # xs)"
  by (induction xs arbitrary: p) auto

lemma lag_diff_gaps:
  "non_null (map2 (\<lambda>s p. map_option (\<lambda>p. s - p) p) xs (lag xs)) = start_gaps xs"
  by (cases xs) (auto simp: lag_def lag_diff_some)

lemma start_gaps_nonneg: "sorted xs \<Longrightarrow> \<forall>g\<in>set (start_gaps xs). 0 \<le> g"
  by (induction xs rule: start_gaps.induct) auto

lemma sum_start_gaps: "sum_list (start_gaps (x # xs)) = last (x # xs) - x"
  by (induction xs arbitrary: x) auto

lemma user_summary_row_hours:
  "avg_time_between_sessions_hours (user_summary_row u rows) =
     (if start_gaps (map session_start_time rows) = [] then None
      else Some (to_double (to_double (double_sum (start_gaps (map session_start_time rows))
                   / to_double (of_nat (length (start_gaps (map session_start_time rows))))) / 3600)))"
  by (simp add: user_summary_row_def avg_def lag_diff_gaps Let_def)

lemma user_row_of:
  assumes "r \<in> set (aggregate_to_user_features df)"
  shows "r = user_summary_row (u_user_id r)
               (sort_key session_start_time (filter (\<lambda>s. s_user_id s = u_user_id r) df))"
    and "u_user_id r \<in> s_user_id ` set df"
proof -
  from assms obtain u where u: "u \<in> s_user_id ` set df"
    and r: "r = user_summary_row u (sort_key session_start_time (filter (\<lambda>s. s_user_id s = u) df))"
    by (auto simp: aggregate_to_user_features_def)
  have "u_user_id r = u" by (simp add: r user_summary_row_def Let_def)
  with u r show "r = user_summary_row (u_user_id r)
               (sort_key session_start_time (filter (\<lambda>s. s_user_id s = u_user_id r) df))"
    and "u_user_id r \<in> s_user_id ` set df" by simp_all
qed

lemma start_gaps_empty_iff: "start_gaps xs = [] \<longleftrightarrow> length xs \<le> 1"
  by (induction xs rule: start_gaps.induct) auto

lemma user_summary_row_fields:
  "u_user_id (user_summary_row u rows) = u"
  "total_sessions (user_summary_row u rows) = int (length rows)"
  "total_events_lifetime (user_summary_row u rows) = long_sum (map total_events rows)"
  by (simp_all add: user_summary_row_def Let_def)

lemma aggregate_to_user_features_rows:
  "aggregate_to_user_features df = map (user_row df) (remdups (map s_user_id df))"
  by (simp add: aggregate_to_user_features_def user_row_def)

lemma user_row_gaps:
  "start_gaps (map session_start_time
       (sort_key session_start_time (filter (\<lambda>s. s_user_id s = u) df)))
     = spec_session_gaps (map session_start_time (filter (\<lambda>s. s_user_id s = u) df))"
  by (simp add: spec_session_gaps_eq map_sort_key)

lemma user_gaps_exact:
  assumes "\<forall>s\<in>set df. s_user_id s = u \<longrightarrow> \<bar>session_start_time s\<bar> < 2 ^ 52"
  shows "double_sum (spec_session_gaps (map session_start_time (filter (\<lambda>s. s_user_id s = u) df)))
     = of_int (sum_list (spec_session_gaps (map session_start_time (filter (\<lambda>s. s_user_id s = u) df))))"
proof -
  let ?starts = "map session_start_time (filter (\<lambda>s. s_user_id s = u) df)"
  have range: "\<bar>t\<bar> < 2 ^ 52" if "t \<in> set (sort ?starts)" for t
    using that assms by auto
  have nonneg: "\<forall>g\<in>set (start_gaps (sort ?starts)). 0 \<le> g"
    by (rule start_gaps_nonneg) simp
  have "sum_list (start_gaps (sort ?starts)) < 2 ^ 53"
  proof (cases "sort ?starts")
    case Nil
    then show ?thesis by simp
  next
    case (Cons x xs)
    have "\<bar>x\<bar> < 2 ^ 52" "\<bar>last (x # xs)\<bar> < 2 ^ 52"
      using range [of x] range [of "last (x # xs)"] Cons last_in_set [of "x # xs"] by simp_all
    then have "last (x # xs) - x < 2 ^ 53" by simp
    then show ?thesis unfolding Cons sum_start_gaps .
  qed
  with nonneg show ?thesis unfolding spec_session_gaps_eq by (rule double_sum_exact)
qed

text \<open>The value of the column for one user: null with at most one session row, and with
  more rows and timestamps below \<open>2\<^sup>5\<^sup>2\<close> in absolute value the twice rounded quotient.\<close>

lemma avg_hours_none:
  assumes "r \<in> set (aggregate_to_user_features df)"
    and "length (filter (\<lambda>s. s_user_id s = u_user_id r) df) \<le> 1"
  shows "avg_time_between_sessions_hours r = None"
proof -
  let ?rows = "filter (\<lambda>s. s_user_id s = u_user_id r) df"
  have "spec_session_gaps (map session_start_time ?rows) = []"
    using assms(2) by (simp add: spec_session_gaps_eq start_gaps_empty_iff)
  then have "start_gaps (map session_start_time (sort_key session_start_time ?rows)) = []"
    by (simp only: user_row_gaps)
  then have "avg_time_between_sessions_hours
      (user_summary_row (u_user_id r) (sort_key session_start_time ?rows)) = None"
    by (simp add: user_summary_row_hours)
  then show ?thesis using user_row_of(1) [OF assms(1)] by simp
qed

lemma avg_hours_of_row:
  assumes "r \<in> set (aggregate_to_user_features df)"
    and "2 \<le> length (filter (\<lambda>s. s_user_id s = u_user_id r) df)"
    and "\<forall>s\<in>set df. s_user_id s = u_user_id r \<longrightarrow> \<bar>session_start_time s\<bar> < 2 ^ 52"
  shows "avg_time_between_sessions_hours r =
     Some (double_avg_time_between_sessions_hours
             (map session_start_time (filter (\<lambda>s. s_user_id s = u_user_id r) df)))"
proof -
  let ?rows = "filter (\<lambda>s. s_user_id s = u_user_id r) df"
  let ?gaps = "spec_session_gaps (map session_start_time ?rows)"
  have ne: "?gaps \<noteq> []"
    using assms(2) by (simp add: spec_session_gaps_eq start_gaps_empty_iff)
  have "avg_time_between_sessions_hours r =
      avg_time_between_sessions_hours (user_summary_row (u_user_id r) (sort_key session_start_time ?rows))"
    using user_row_of(1) [OF assms(1)] by simp
  also have "\<dots> = Some (to_double (to_double (double_sum ?gaps
      / to_double (of_nat (length ?gaps))) / 3600))"
    unfolding user_summary_row_hours user_row_gaps using ne by simp
  also have "\<dots> = Some (double_avg_time_between_sessions_hours (map session_start_time ?rows))"
    unfolding double_avg_time_between_sessions_hours_def user_gaps_exact [OF assms(3)] ..
  finally show ?thesis .
qed

lemma double_avg_single_gap:
  assumes "sort starts = [t0, t0 + 7170]"
  shows "double_avg_time_between_sessions_hours starts = to_double (7170 / 3600)"
proof -
  have g: "spec_session_gaps starts = [7170]" using assms by (simp add: spec_session_gaps_eq)
  have one: "to_double (of_nat 1) = of_nat 1" by (rule to_double_of_nat) simp_all
  have "to_double (of_int 7170) = of_int 7170" by (rule to_double_of_int) simp_all
  then have t: "to_double 7170 = 7170" by simp
  show ?thesis
    unfolding double_avg_time_between_sessions_hours_def g using one t by simp
qed

lemma final_row_simps [simp]:
  "s_user_id (final_row a) = s_user_id a"
  "s_session_id (final_row a) = s_session_id a"
  "session_start_time (final_row a) = session_start_time a"
  "session_end_time (final_row a) = session_end_time a"
  "total_events (final_row a) = total_events a"
  "unique_event_types (final_row a) = unique_event_types a"
  "session_duration_seconds (final_row a) = session_end_time a - session_start_time a"
  "hour_of_day (final_row a) = hour (session_start_time a)"
  "day_of_week (final_row a) = dayofweek (session_start_time a)"
  "funnel_stage (final_row a) = funnel_stage_of (unique_event_types a)"
  by (simp_all add: final_row_def session_aggregate.defs session_features.defs)

lemma example_user_rows_list:
  "aggregate_to_user_features example_sessions
     = [user_row example_sessions 2, user_row example_sessions 1]"
  by (simp add: aggregate_to_user_features_rows example_sessions_def example_session_def)

lemma user_row_user_id: "u_user_id (user_row df u) = u"
  by (simp add: user_row_def user_summary_row_fields)

lemma example_user_1_rows:
  "filter (\<lambda>s. s_user_id s = 1) example_sessions =
     [example_session 1 ''1_2'' 8170 8170 1 [''view''],
      example_session 1 ''1_1'' 1000 1030 2 [''view'', ''purchase'']]"
  by (simp add: example_sessions_def example_session_def)

text \<open>
  Claim C3, amended. For a user with at least two session rows whose starts are below
  \<open>2\<^sup>5\<^sup>2\<close> in absolute value, \<^verbatim>\<open>avg_time_between_sessions_hours\<close> is computed in double
  arithmetic from the gaps of the specification (sessions ordered by start, each start minus
  the previous one, the first session left out): the sum of the gaps divided by their
  number and rounded to a double, then divided by 3600 and rounded again. For two sessions
  whose starts are 7170 seconds apart it is the double nearest to 7170/3600.
\<close>

theorem avg_time_between_sessions_double_mean:
  assumes "r \<in> set (aggregate_to_user_features df)"
    and "2 \<le> length (filter (\<lambda>s. s_user_id s = u_user_id r) df)"
    and "\<forall>s\<in>set df. s_user_id s = u_user_id r \<longrightarrow> \<bar>session_start_time s\<bar> < 2 ^ 52"
  shows "avg_time_between_sessions_hours r =
           Some (double_avg_time_between_sessions_hours
                   (map session_start_time (filter (\<lambda>s. s_user_id s = u_user_id r) df)))
         \<and> (\<forall>t0. sort (map session_start_time (filter (\<lambda>s. s_user_id s = u_user_id r) df))
                    = [t0, t0 + 7170]
                \<longrightarrow> avg_time_between_sessions_hours r = Some (to_double (7170 / 3600)))"
  using avg_hours_of_row [OF assms] by (simp add: double_avg_single_gap)

theorem avg_time_between_sessions_double_mean_witness:
  "user_row example_sessions 1 \<in> set (aggregate_to_user_features example_sessions)
   \<and> 2 \<le> length (filter (\<lambda>s. s_user_id s = 1) example_sessions)
   \<and> sort (map session_start_time (filter (\<lambda>s. s_user_id s = 1) example_sessions))
        = [1000, 1000 + 7170]
   \<and> avg_time_between_sessions_hours (user_row example_sessions 1)
        = Some (4484834628923119 / 2251799813685248)"
proof -
  let ?r = "user_row example_sessions 1"
  have u: "u_user_id ?r = 1" by (rule user_row_user_id)
  have h1: "?r \<in> set (aggregate_to_user_features example_sessions)"
    by (simp add: example_user_rows_list)
  have h2: "2 \<le> length (filter (\<lambda>s. s_user_id s = u_user_id ?r) example_sessions)"
    by (simp add: u example_user_1_rows)
  have h3: "\<forall>s\<in>set example_sessions. s_user_id s = u_user_id ?r
      \<longrightarrow> \<bar>session_start_time s\<bar> < 2 ^ 52"
    by (simp add: example_sessions_def example_session_def)
  have h4: "sort (map session_start_time (filter (\<lambda>s. s_user_id s = u_user_id ?r) example_sessions))
      = [1000, 1000 + 7170]"
    by (simp add: u example_user_1_rows example_session_def)
  have "avg_time_between_sessions_hours ?r = Some (to_double (7170 / 3600))"
    using avg_time_between_sessions_double_mean [OF h1 h2 h3, THEN conjunct2, rule_format, OF h4] .
  then have "avg_time_between_sessions_hours ?r = Some (4484834628923119 / 2251799813685248)"
    by (simp only: to_double_7170_3600)
  then show ?thesis using h1 h2 h4 unfolding u by blast
qed

text \<open>
  Claim C3 as stated fails: for session starts 0, 2000, 3000 and 4001 the mean gap divided
  by 3600 is 4001/10800, and the column holds neither this number nor the double nearest to
  it, but the double below that one.
\<close>

theorem avg_time_between_sessions_exact_counterexample:
  "user_row example_four_sessions 1 \<in> set (aggregate_to_user_features example_four_sessions)
   \<and> avg_time_between_sessions_hours (user_row example_four_sessions 1)
        = Some (834208430977285 / 2251799813685248)
   \<and> spec_avg_time_between_sessions_hours (map session_start_time example_four_sessions)
        = 4001 / 10800
   \<and> to_double (4001 / 10800) = 6673667447818279 / 18014398509481984
   \<and> (834208430977285 / 2251799813685248 :: rat) \<noteq> 4001 / 10800
   \<and> (834208430977285 / 2251799813685248 :: rat) \<noteq> 6673667447818279 / 18014398509481984"
proof -
  let ?r = "user_row example_four_sessions 1"
  have rows: "aggregate_to_user_features example_four_sessions = [?r]"
    by (simp add: aggregate_to_user_features_rows example_four_sessions_def example_session_def)
  have mem: "?r \<in> set (aggregate_to_user_features example_four_sessions)" by (simp add: rows)
  have u: "u_user_id ?r = 1" by (rule user_row_user_id)
  have f: "filter (\<lambda>s. s_user_id s = 1) example_four_sessions = example_four_sessions"
    by (simp add: example_four_sessions_def example_session_def)
  have starts: "map session_start_time example_four_sessions = [0, 2000, 3000, 4001]"
    by (simp add: example_four_sessions_def example_session_def)
  have gaps: "spec_session_gaps [0, 2000, 3000, 4001] = [2000, 1000, 1001]"
    by (simp add: spec_session_gaps_eq)
  have three: "to_double (of_nat 3) = of_nat 3" by (rule to_double_of_nat) simp_all
  have h2: "2 \<le> length (filter (\<lambda>s. s_user_id s = u_user_id ?r) example_four_sessions)"
    unfolding u f by (simp add: example_four_sessions_def)
  have h3: "\<forall>s\<in>set example_four_sessions. s_user_id s = u_user_id ?r
      \<longrightarrow> \<bar>session_start_time s\<bar> < 2 ^ 52"
    by (simp add: example_four_sessions_def example_session_def)
  have "avg_time_between_sessions_hours ?r
      = Some (double_avg_time_between_sessions_hours [0, 2000, 3000, 4001])"
    using avg_hours_of_row [OF mem h2 h3] unfolding u f starts .
  also have "double_avg_time_between_sessions_hours [0, 2000, 3000, 4001]
      = to_double (to_double (4001 / 3) / 3600)"
    unfolding double_avg_time_between_sessions_hours_def gaps using three by simp
  also have "\<dots> = 834208430977285 / 2251799813685248"
    by (simp only: to_double_4001_3 to_double_avg_3600)
  finally have v: "avg_time_between_sessions_hours ?r = Some (834208430977285 / 2251799813685248)" .
  have sp: "spec_avg_time_between_sessions_hours (map session_start_time example_four_sessions)
      = 4001 / 10800"
    unfolding starts spec_avg_time_between_sessions_hours_def gaps by simp
  have n1: "(834208430977285 / 2251799813685248 :: rat) \<noteq> 4001 / 10800" by simp
  have n2: "(834208430977285 / 2251799813685248 :: rat) \<noteq> 6673667447818279 / 18014398509481984"
    by simp
  from mem v sp to_double_4001_10800 n1 n2 show ?thesis by blast
qed

text \<open>
  Claim C4. A user with exactly one session row gets a summary row, and its
  \<^verbatim>\<open>avg_time_between_sessions_hours\<close> is null: not zero, and no error is raised.
\<close>

theorem single_session_avg_null:
  assumes "length (filter (\<lambda>s. s_user_id s = u) df) = 1"
  shows "(\<exists>r\<in>set (aggregate_to_user_features df). u_user_id r = u)
         \<and> (\<forall>r\<in>set (aggregate_to_user_features df). u_user_id r = u \<longrightarrow>
               avg_time_between_sessions_hours r = None
               \<and> avg_time_between_sessions_hours r \<noteq> Some 0)"
proof -
  have "filter (\<lambda>s. s_user_id s = u) df \<noteq> []" using assms by auto
  then have "u \<in> s_user_id ` set df" by (auto simp: filter_empty_conv)
  then have "user_row df u \<in> set (aggregate_to_user_features df)"
    by (simp add: aggregate_to_user_features_rows)
  then have ex: "\<exists>r\<in>set (aggregate_to_user_features df). u_user_id r = u"
    using user_row_user_id by blast
  have "avg_time_between_sessions_hours r = None"
    if "r \<in> set (aggregate_to_user_features df)" "u_user_id r = u" for r
    using avg_hours_none [OF that(1)] that(2) assms by simp
  with ex show ?thesis by simp
qed

theorem single_session_avg_null_witness:
  "length (filter (\<lambda>s. s_user_id s = 2) example_sessions) = 1
   \<and> hd (aggregate_to_user_features example_sessions) \<in> set (aggregate_to_user_features example_sessions)
   \<and> u_user_id (hd (aggregate_to_user_features example_sessions)) = 2
   \<and> avg_time_between_sessions_hours (hd (aggregate_to_user_features example_sessions)) = None"
proof -
  let ?r = "hd (aggregate_to_user_features example_sessions)"
  have h: "length (filter (\<lambda>s. s_user_id s = 2) example_sessions) = 1"
    by (simp add: example_sessions_def example_session_def)
  have r: "?r \<in> set (aggregate_to_user_features example_sessions)" and u: "u_user_id ?r = 2"
    by (simp_all add: example_user_rows_list user_row_user_id)
  have "avg_time_between_sessions_hours ?r = None"
    using single_session_avg_null [OF h, THEN conjunct2, THEN bspec, OF r] u by simp
  with h r u show ?thesis by simp
qed







text \<open>The table that the grouping builds has one row per user and session, each with at least one event.\<close>

lemma session_features_df_keys:
  "map (\<lambda>a. (s_user_id a, s_session_id a)) (session_features_df df) =
     remdups (map (\<lambda>r. (user_id r, session_id r)) df)"
  by (simp add: session_features_df_def agg_session_def comp_def case_prod_beta)

lemma session_features_df_wellformed:
  "distinct (map (\<lambda>s. (s_user_id s, s_session_id s)) (map final_row (session_features_df df)))"
  "\<forall>s\<in>set (map final_row (session_features_df df)). 1 \<le> total_events s"
proof -
  have "map (\<lambda>s. (s_user_id s, s_session_id s)) (map final_row (session_features_df df)) =
      remdups (map (\<lambda>r. (user_id r, session_id r)) df)"
    using session_features_df_keys [of df] by (simp add: comp_def)
  then show "distinct (map (\<lambda>s. (s_user_id s, s_session_id s)) (map final_row (session_features_df df)))"
    by simp
  show "\<forall>s\<in>set (map final_row (session_features_df df)). 1 \<le> total_events s"
  proof
    fix s assume "s \<in> set (map final_row (session_features_df df))"
    then obtain r where r: "r \<in> set df"
      and s: "s = final_row (agg_session (user_id r) (session_id r)
                    (filter (\<lambda>x. user_id x = user_id r \<and> session_id x = session_id r) df))"
      by (auto simp: session_features_df_def)
    have "filter (\<lambda>x. user_id x = user_id r \<and> session_id x = session_id r) df \<noteq> []"
      using r by (auto simp: filter_empty_conv)
    then show "1 \<le> total_events s"
      by (cases "filter (\<lambda>x. user_id x = user_id r \<and> session_id x = session_id r) df")
         (auto simp: s agg_session_def)
  qed
qed

section \<open>Properties of the session aggregation\<close>

lemma funnel_stage_of_priority:
  "''purchase'' \<in> set types \<Longrightarrow> funnel_stage_of types = ''completed_purchase''"
  "''purchase'' \<notin> set types \<Longrightarrow> ''cart'' \<in> set types \<Longrightarrow> funnel_stage_of types = ''added_to_cart''"
  "''purchase'' \<notin> set types \<Longrightarrow> ''cart'' \<notin> set types \<Longrightarrow> ''view'' \<in> set types \<Longrightarrow>
     funnel_stage_of types = ''view_only''"
  "''purchase'' \<notin> set types \<Longrightarrow> ''cart'' \<notin> set types \<Longrightarrow> ''view'' \<notin> set types \<Longrightarrow>
     funnel_stage_of types = ''other''"
  by (simp_all add: funnel_stage_of_def)

lemma funnel_stage_of_examples:
  "funnel_stage_of [''view'', ''cart'', ''purchase''] = ''completed_purchase''"
  "funnel_stage_of [''cart'', ''view''] = ''added_to_cart''"
  "funnel_stage_of [''view''] = ''view_only''"
  "funnel_stage_of [] = ''other''"
  "funnel_stage_of [''remove_from_cart''] = ''other''"
  by (simp_all add: funnel_stage_of_def)

text \<open>
  Claim C6. The chain is meant to classify by membership (lemmas \<open>funnel_stage_of_priority\<close>
  and \<open>funnel_stage_of_examples\<close>), but its conditions apply the string predicate to the
  array column: for a session with one purchase event the call ends with AnalysisException
  instead of the stage \<^verbatim>\<open>completed_purchase\<close>.
\<close>

theorem funnel_stage_contains_rejected:
  "aggregate_to_session_features [with_session_id (example_event 1 1000 ''purchase'') ''1_1'']
     = Inl AnalysisException"
  by (simp add: aggregate_to_session_features_def analyze_contains_def session_features_schema_def)

lemma dayofweek_of_day: "dayofweek ts = (ts div 86400 + 4) mod 7 + 1"
  by (simp add: dayofweek_def)

lemma weekday_range: "1 \<le> (d + 4) mod 7 + 1 \<and> (d + 4) mod 7 + 1 \<le> 7" for d :: int
  by presburger

lemma weekday_next: "(d + 1 + 4) mod 7 + 1 = ((d + 4) mod 7 + 1) mod 7 + 1" for d :: int
  by presburger

lemma dayofweek_encoding:
  "1 \<le> dayofweek ts \<and> dayofweek ts \<le> 7
   \<and> dayofweek 0 = 5
   \<and> dayofweek (ts + 86400) = dayofweek ts mod 7 + 1
   \<and> dayofweek ts = dayofweek (ts - ts mod 86400)
   \<and> dayofweek 259200 = 1
   \<and> dayofweek 172800 = 7"
proof -
  have "(ts + 86400) div 86400 = ts div 86400 + 1" by simp
  then have next_day: "dayofweek (ts + 86400) = dayofweek ts mod 7 + 1"
    unfolding dayofweek_of_day by (simp only: weekday_next)
  have "(ts - ts mod 86400) div 86400 = ts div 86400"
    by (simp add: minus_mod_eq_mult_div)
  then have same_day: "dayofweek ts = dayofweek (ts - ts mod 86400)"
    unfolding dayofweek_of_day by simp
  have range: "1 \<le> dayofweek ts \<and> dayofweek ts \<le> 7"
    unfolding dayofweek_of_day by (rule weekday_range)
  have anchors: "dayofweek 0 = 5" "dayofweek 259200 = 1" "dayofweek 172800 = 7"
    by (simp_all add: dayofweek_def)
  from next_day same_day range anchors show ?thesis by simp
qed

text \<open>
  Claim C10. The chain of \<^verbatim>\<open>withColumn\<close> calls is written to add \<^verbatim>\<open>day_of_week\<close> as Spark's
  \<^verbatim>\<open>dayofweek\<close> of the session start, an integer from 1 for Sunday to 7 for Saturday (lemma
  \<open>dayofweek_encoding\<close>). The \<^verbatim>\<open>funnel_stage\<close> column of the same chain is rejected by the
  analyzer, so the function ends with AnalysisException and returns no table: no
  \<^verbatim>\<open>day_of_week\<close> value is produced, here for the four sessionized example events.
\<close>

theorem day_of_week_not_produced:
  "aggregate_to_session_features example_sessionized = Inl AnalysisException"
  by (simp add: aggregate_to_session_features_def analyze_contains_def session_features_schema_def)

end
